theory Spec2Isabelle
  imports Complex_Main "HOL-Library.Word"
begin

text \<open>
  The velocity-driven trigger engine of the Snap browser extension: class \<open>VelocityTracker\<close>
  (src/utils/velocityTracker.ts) and the part of the page script that drives it
  (src/content/index.tsx), over an explicit model of the clock and the timers of the
  JavaScript runtime. Each definition follows the source function of the same name.
\<close>

section \<open>Strings\<close>

text \<open>
  A JavaScript string is a sequence of UTF-16 code units: \<open>length\<close> counts code units and
  \<open>s[i]\<close> is the one-unit string at index \<open>i\<close>.
\<close>

type_synonym codeunit = "16 word"
type_synonym jsstring = "codeunit list"

text \<open>
  \<open>String.prototype.trim\<close> strips the code units that ECMAScript calls WhiteSpace or
  LineTerminator from both ends.
\<close>

definition WHITESPACE :: "codeunit list" where
  "WHITESPACE =
     [0x0009, 0x000A, 0x000B, 0x000C, 0x000D, 0x0020, 0x00A0, 0x1680,
      0x2000, 0x2001, 0x2002, 0x2003, 0x2004, 0x2005, 0x2006, 0x2007, 0x2008, 0x2009, 0x200A,
      0x2028, 0x2029, 0x202F, 0x205F, 0x3000, 0xFEFF]"

definition isWhiteSpace :: "codeunit \<Rightarrow> bool" where
  "isWhiteSpace c \<longleftrightarrow> c \<in> set WHITESPACE"

definition trim :: "jsstring \<Rightarrow> jsstring" where
  "trim s = rev (dropWhile isWhiteSpace (rev (dropWhile isWhiteSpace s)))"

text \<open>
  \<open>for (const char of newChars)\<close> walks a string by code points: a high surrogate followed
  by a low surrogate is one element of two code units.
\<close>

definition isHighSurrogate :: "codeunit \<Rightarrow> bool" where
  "isHighSurrogate c \<longleftrightarrow> 0xD800 \<le> c \<and> c \<le> 0xDBFF"

definition isLowSurrogate :: "codeunit \<Rightarrow> bool" where
  "isLowSurrogate c \<longleftrightarrow> 0xDC00 \<le> c \<and> c \<le> 0xDFFF"

fun codePoints :: "jsstring \<Rightarrow> jsstring list" where
  "codePoints [] = []"
| "codePoints [c] = [[c]]"
| "codePoints (c # d # cs) =
     (if isHighSurrogate c \<and> isLowSurrogate d then [c, d] # codePoints cs
      else [c] # codePoints (d # cs))"

text \<open>
  \<open>String.prototype.toLowerCase\<close> is the Unicode case mapping of the JavaScript runtime;
  the functions below take it as the parameter \<open>lc\<close>. On strings of Basic Latin code
  units it is the following map, which the concrete runs use.
\<close>

definition toLowerLatin :: "jsstring \<Rightarrow> jsstring" where
  "toLowerLatin s = map (\<lambda>c. if 0x41 \<le> c \<and> c \<le> 0x5A then c + 0x20 else c) s"

section \<open>Constants of velocityTracker.ts\<close>

datatype VelocityState = FLOW | EDITING | REVIEWING | STOPPED

record VelocityConfig =
  sampleInterval :: int
  charBufferSize :: nat
  flowThreshold :: rat
  editingThreshold :: rat
  reviewingThreshold :: rat
  microPauseIgnoreThreshold :: int
  naturalCompletionWait :: int
  planningPauseWait :: int
  cooldownPeriod :: int
  minPromptLength :: nat
  minChangePercent :: rat

definition DEFAULT_CONFIG :: VelocityConfig where
  "DEFAULT_CONFIG =
     \<lparr> sampleInterval = 500,
       charBufferSize = 10,
       flowThreshold = 2,
       editingThreshold = 1 / 2,
       reviewingThreshold = 1 / 10,
       microPauseIgnoreThreshold = 1500,
       naturalCompletionWait = 6000,
       planningPauseWait = 8000,
       cooldownPeriod = 30000,
       minPromptLength = 15,
       minChangePercent = 1 / 5 \<rparr>"

record CharTimestamp =
  char :: jsstring
  timestamp :: int

text \<open>hello, hi, test, testing, and the two Chinese phrases U+6D4B U+8BD5 and U+4F60 U+597D.\<close>

definition THROWAWAY_PHRASES :: "jsstring list" where
  "THROWAWAY_PHRASES =
     [[0x68, 0x65, 0x6C, 0x6C, 0x6F],
      [0x68, 0x69],
      [0x74, 0x65, 0x73, 0x74],
      [0x74, 0x65, 0x73, 0x74, 0x69, 0x6E, 0x67],
      [0x6D4B, 0x8BD5],
      [0x4F60, 0x597D]]"

text \<open>Full stop, question mark, exclamation mark, then U+3002, U+FF1F and U+FF01.\<close>

definition PUNCTUATION :: "jsstring list" where
  "PUNCTUATION = [[0x2E], [0x3F], [0x21], [0x3002], [0xFF1F], [0xFF01]]"

section \<open>Change distance\<close>

type_synonym table = "nat list list"

text \<open>\<open>Array(m + 1).fill(null).map(() => Array(n + 1).fill(0))\<close>\<close>

definition newTable :: "nat \<Rightarrow> nat \<Rightarrow> table" where
  "newTable m n = replicate (m + 1) (replicate (n + 1) 0)"

text \<open>\<open>dp[i][j] = v\<close>\<close>

definition store :: "table \<Rightarrow> nat \<Rightarrow> nat \<Rightarrow> nat \<Rightarrow> table" where
  "store dp i j v = dp[i := (dp ! i)[j := v]]"

text \<open>\<open>for (let i = 0; i <= m; i++) dp[i][0] = i;\<close>\<close>

function fillColumn0 :: "nat \<Rightarrow> nat \<Rightarrow> table \<Rightarrow> table" where
  "fillColumn0 m i dp = (if i \<le> m then fillColumn0 m (i + 1) (store dp i 0 i) else dp)"
  by pat_completeness auto
termination
  by (relation "measure (\<lambda>(m, i, dp). m + 1 - i)") auto

text \<open>\<open>for (let j = 0; j <= n; j++) dp[0][j] = j;\<close>\<close>

function fillRow0 :: "nat \<Rightarrow> nat \<Rightarrow> table \<Rightarrow> table" where
  "fillRow0 n j dp = (if j \<le> n then fillRow0 n (j + 1) (store dp 0 j j) else dp)"
  by pat_completeness auto
termination
  by (relation "measure (\<lambda>(n, j, dp). n + 1 - j)") auto

text \<open>The value the loop body writes to \<open>dp[i][j]\<close>.\<close>

definition cellValue :: "'a list \<Rightarrow> 'a list \<Rightarrow> table \<Rightarrow> nat \<Rightarrow> nat \<Rightarrow> nat" where
  "cellValue str1 str2 dp i j =
     (if str1 ! (i - 1) = str2 ! (j - 1) then dp ! (i - 1) ! (j - 1)
      else min (min (dp ! (i - 1) ! j) (dp ! i ! (j - 1))) (dp ! (i - 1) ! (j - 1)) + 1)"

function innerLoop :: "'a list \<Rightarrow> 'a list \<Rightarrow> nat \<Rightarrow> nat \<Rightarrow> table \<Rightarrow> table" where
  "innerLoop str1 str2 i j dp =
     (if j \<le> length str2
      then innerLoop str1 str2 i (j + 1) (store dp i j (cellValue str1 str2 dp i j))
      else dp)"
  by pat_completeness auto
termination
  by (relation "measure (\<lambda>(str1, str2, i, j, dp). length str2 + 1 - j)") auto

function outerLoop :: "'a list \<Rightarrow> 'a list \<Rightarrow> nat \<Rightarrow> table \<Rightarrow> table" where
  "outerLoop str1 str2 i dp =
     (if i \<le> length str1
      then outerLoop str1 str2 (i + 1) (innerLoop str1 str2 i 1 dp)
      else dp)"
  by pat_completeness auto
termination
  by (relation "measure (\<lambda>(str1, str2, i, dp). length str1 + 1 - i)") auto

definition levenshteinDistance :: "'a list \<Rightarrow> 'a list \<Rightarrow> nat" where
  "levenshteinDistance str1 str2 =
     (let m = length str1;
          n = length str2;
          dp = newTable m n;
          dp = fillColumn0 m 0 dp;
          dp = fillRow0 n 0 dp;
          dp = outerLoop str1 str2 1 dp
      in dp ! m ! n)"

declare fillColumn0.simps [simp del] fillRow0.simps [simp del]
  innerLoop.simps [simp del] outerLoop.simps [simp del]

text \<open>Numbers that are not integers (ratios, thresholds) are exact rationals.\<close>

definition calculateChangePercent :: "jsstring \<Rightarrow> jsstring \<Rightarrow> rat" where
  "calculateChangePercent text1 text2 =
     (if text2 = [] then 1
      else let distance = levenshteinDistance text1 text2;
               maxLength = max (length text1) (length text2)
           in if maxLength > 0 then of_nat distance / of_nat maxLength else 0)"

definition endsWithPunctuation :: "jsstring \<Rightarrow> bool" where
  "endsWithPunctuation text =
     (let trimmed = trim text
      in if trimmed = [] then False
         else let lastChar = [trimmed ! (length trimmed - 1)] in lastChar \<in> set PUNCTUATION)"

section \<open>The tracker, the page script and the timers of the runtime\<close>

text \<open>
  The fields of class \<open>VelocityTracker\<close>. A callback field holds whether the callback is
  set; calling it is an effect on the state of the whole program below.
\<close>

record VelocityTracker =
  config :: VelocityConfig
  charTimestamps :: "CharTimestamp list"
  currentState :: VelocityState
  previousState :: VelocityState
  countdownTimer :: "nat option"
  sampleTimer :: "nat option"
  isComposing :: bool
  lastAssessedText :: jsstring
  lastAssessmentTime :: int
  triggerCallback :: bool
  stateChangeCallback :: bool
  getCurrentText :: bool

text \<open>
  The callbacks handed to \<open>setTimeout\<close> and \<open>setInterval\<close>. The countdown callback closes
  over the handle of its midpoint timer.
\<close>

datatype callback =
    SampleTick
  | GraceCheck
  | Midpoint
  | CountdownExpiry nat
  | VelocityPoll
  | InactivityExpiry

record timer =
  handle :: nat
  due :: int
  action :: callback
  period :: "int option"

text \<open>
  The state of the program: the clock read by \<open>Date.now()\<close>, the pending timers and the next
  timer handle of the runtime, the tracker, the refs of the page script (index.tsx), and two
  logs of the calls made to the trigger consumer and to the feedback consumer.
\<close>

record world =
  now :: int
  timers :: "timer list"
  nextHandle :: nat
  tracker :: VelocityTracker
  promptTextRef :: jsstring
  previousTextForTracking :: jsstring
  isTrackerActiveRef :: bool
  inactivityTimerRef :: "nat option"
  velocityPollTimerRef :: "nat option"
  triggered :: "(int \<times> jsstring) list"
  feedback :: "(int \<times> VelocityState \<times> rat) list"

definition newTracker :: VelocityTracker where
  "newTracker =
     \<lparr> config = DEFAULT_CONFIG,
       charTimestamps = [],
       currentState = STOPPED,
       previousState = STOPPED,
       countdownTimer = None,
       sampleTimer = None,
       isComposing = False,
       lastAssessedText = [],
       lastAssessmentTime = 0,
       triggerCallback = False,
       stateChangeCallback = False,
       getCurrentText = False \<rparr>"

definition init :: "int \<Rightarrow> world" where
  "init t0 =
     \<lparr> now = t0,
       timers = [],
       nextHandle = 1,
       tracker = newTracker,
       promptTextRef = [],
       previousTextForTracking = [],
       isTrackerActiveRef = False,
       inactivityTimerRef = None,
       velocityPollTimerRef = None,
       triggered = [],
       feedback = [] \<rparr>"

subsection \<open>Timers\<close>

definition setTimeout :: "callback \<Rightarrow> int \<Rightarrow> world \<Rightarrow> nat \<times> world" where
  "setTimeout cb delay w =
     (nextHandle w,
      w\<lparr> timers := timers w @ [\<lparr> handle = nextHandle w, due = now w + delay, action = cb, period = None \<rparr>],
         nextHandle := nextHandle w + 1 \<rparr>)"

definition setInterval :: "callback \<Rightarrow> int \<Rightarrow> world \<Rightarrow> nat \<times> world" where
  "setInterval cb delay w =
     (nextHandle w,
      w\<lparr> timers := timers w @ [\<lparr> handle = nextHandle w, due = now w + delay, action = cb, period = Some delay \<rparr>],
         nextHandle := nextHandle w + 1 \<rparr>)"

definition clearTimeout :: "nat \<Rightarrow> world \<Rightarrow> world" where
  "clearTimeout h w = w\<lparr> timers := filter (\<lambda>t. handle t \<noteq> h) (timers w) \<rparr>"

text \<open>A handle is truthy when it is a number other than zero.\<close>

definition truthy :: "nat option \<Rightarrow> bool" where
  "truthy r = (case r of None \<Rightarrow> False | Some h \<Rightarrow> h \<noteq> 0)"

subsection \<open>Methods of the tracker that do not call the trigger consumer\<close>

definition cancelCountdown :: "world \<Rightarrow> world" where
  "cancelCountdown w =
     (case countdownTimer (tracker w) of
        None \<Rightarrow> w
      | Some h \<Rightarrow>
          if h \<noteq> 0
          then (clearTimeout h w)\<lparr> tracker := (tracker w)\<lparr> countdownTimer := None \<rparr> \<rparr>
          else w)"

definition start :: "bool \<Rightarrow> world \<Rightarrow> world" where
  "start onStateChange w =
     (let w1 = w\<lparr> tracker := (tracker w)\<lparr> getCurrentText := True, triggerCallback := True,
                                           stateChangeCallback := onStateChange \<rparr> \<rparr>;
          (h, w2) = setInterval SampleTick (sampleInterval (config (tracker w1))) w1
      in w2\<lparr> tracker := (tracker w2)\<lparr> sampleTimer := Some h \<rparr> \<rparr>)"

definition stop :: "world \<Rightarrow> world" where
  "stop w =
     (let w1 = (case sampleTimer (tracker w) of
                  None \<Rightarrow> w
                | Some h \<Rightarrow>
                    if h \<noteq> 0
                    then (clearTimeout h w)\<lparr> tracker := (tracker w)\<lparr> sampleTimer := None \<rparr> \<rparr>
                    else w)
      in cancelCountdown w1)"

definition trackKeystroke :: "jsstring \<Rightarrow> world \<Rightarrow> world" where
  "trackKeystroke c w =
     (if isComposing (tracker w) then w
      else let pushed = charTimestamps (tracker w) @ [\<lparr> char = c, timestamp = now w \<rparr>];
               kept = (if length pushed > charBufferSize (config (tracker w)) then tl pushed else pushed)
           in w\<lparr> tracker := (tracker w)\<lparr> charTimestamps := kept \<rparr> \<rparr>)"

definition setComposing :: "bool \<Rightarrow> world \<Rightarrow> world" where
  "setComposing b w = w\<lparr> tracker := (tracker w)\<lparr> isComposing := b \<rparr> \<rparr>"

definition getCurrentVelocity :: "world \<Rightarrow> nat" where
  "getCurrentVelocity w =
     length (filter (\<lambda>t. now w - timestamp t < 1000) (charTimestamps (tracker w)))"

definition getOpacityForState :: "VelocityState \<Rightarrow> rat" where
  "getOpacityForState s =
     (case s of FLOW \<Rightarrow> 2 / 10 | EDITING \<Rightarrow> 6 / 10 | REVIEWING \<Rightarrow> 6 / 10 | STOPPED \<Rightarrow> 8 / 10)"

text \<open>\<open>this.stateChangeCallback?.(state, opacity)\<close>\<close>

definition notifyStateChange :: "VelocityState \<Rightarrow> rat \<Rightarrow> world \<Rightarrow> world" where
  "notifyStateChange s opacity w =
     (if stateChangeCallback (tracker w)
      then w\<lparr> feedback := feedback w @ [(now w, s, opacity)] \<rparr>
      else w)"

subsection \<open>The page script: activation and the inactivity timer\<close>

definition resetInactivityTimer :: "world \<Rightarrow> world" where
  "resetInactivityTimer w =
     (let w1 = (case inactivityTimerRef w of
                  None \<Rightarrow> w
                | Some h \<Rightarrow> if h \<noteq> 0 then clearTimeout h w else w);
          (h, w2) = setTimeout InactivityExpiry (15 * 60 * 1000) w1
      in w2\<lparr> inactivityTimerRef := Some h \<rparr>)"

text \<open>
  The tracker is started with the two callbacks of the page script: the text accessor reads
  \<open>promptTextRef\<close>, the trigger consumer is \<open>handleAssess\<close>; no state-change callback.
\<close>

definition activateVelocityTracker :: "world \<Rightarrow> world" where
  "activateVelocityTracker w =
     (if isTrackerActiveRef w then resetInactivityTimer w
      else let w1 = w\<lparr> isTrackerActiveRef := True \<rparr>;
               w2 = start False w1;
               (h, w3) = setInterval VelocityPoll 500 w2;
               w4 = w3\<lparr> velocityPollTimerRef := Some h \<rparr>
           in resetInactivityTimer w4)"

text \<open>
  \<open>handleAssess\<close> up to its first \<open>await\<close>; the request to the assessment service is
  outside this model. The React state \<open>promptText\<close> is the text last given to the observer,
  which is also \<open>promptTextRef\<close>.
\<close>

definition handleAssess :: "jsstring option \<Rightarrow> world \<Rightarrow> world" where
  "handleAssess textOverride w =
     (let textToAssess = (case textOverride of
                            None \<Rightarrow> promptTextRef w
                          | Some t \<Rightarrow> if t \<noteq> [] then t else promptTextRef w)
      in if textToAssess = [] \<or> length textToAssess < 10 then w
         else activateVelocityTracker w)"

subsection \<open>Methods of the tracker on the trigger path\<close>

definition executeAssessment :: "jsstring \<Rightarrow> world \<Rightarrow> world" where
  "executeAssessment text w =
     (let w1 = w\<lparr> tracker := (tracker w)\<lparr> lastAssessedText := text,
                                           lastAssessmentTime := now w \<rparr> \<rparr>
      in if triggerCallback (tracker w1)
         then handleAssess (Some text) (w1\<lparr> triggered := triggered w1 @ [(now w1, text)] \<rparr>)
         else w1)"

definition forceTrigger :: "world \<Rightarrow> world" where
  "forceTrigger w =
     (if \<not> getCurrentText (tracker w) \<or> \<not> triggerCallback (tracker w) then w
      else let text = promptTextRef w
           in if length text \<ge> 10 then executeAssessment text (cancelCountdown w) else w)"

text \<open>The message that \<open>passesPreFilters\<close> logs before it returns false.\<close>

datatype rejection = TooShort | CooldownActive | InsufficientChange | ThrowawayPhrase

definition preFilterFailure :: "(jsstring \<Rightarrow> jsstring) \<Rightarrow> world \<Rightarrow> jsstring \<Rightarrow> rejection option" where
  "preFilterFailure lc w text =
     (let t = tracker w
      in if length text < minPromptLength (config t) then Some TooShort
         else if now w - lastAssessmentTime t < cooldownPeriod (config t) then Some CooldownActive
         else if calculateChangePercent text (lastAssessedText t) < minChangePercent (config t)
              then Some InsufficientChange
         else let lowerText = trim (lc text)
              in if lowerText \<in> set THROWAWAY_PHRASES then Some ThrowawayPhrase
                 else None)"

definition passesPreFilters :: "(jsstring \<Rightarrow> jsstring) \<Rightarrow> world \<Rightarrow> jsstring \<Rightarrow> bool" where
  "passesPreFilters lc w text \<longleftrightarrow> preFilterFailure lc w text = None"

text \<open>The local variable \<open>waitTime\<close> of \<open>startCountdown\<close>.\<close>

definition waitTime :: "VelocityConfig \<Rightarrow> jsstring \<Rightarrow> int" where
  "waitTime cfg promptText =
     (if endsWithPunctuation promptText then naturalCompletionWait cfg
      else planningPauseWait cfg)"

definition startCountdown :: "world \<Rightarrow> world" where
  "startCountdown w =
     (if \<not> getCurrentText (tracker w) then w
      else let promptText = promptTextRef w;
               (midpointTimer, w1) = setTimeout Midpoint 3000 w;
               (h, w2) = setTimeout (CountdownExpiry midpointTimer)
                           (waitTime (config (tracker w)) promptText) w1
           in w2\<lparr> tracker := (tracker w2)\<lparr> countdownTimer := Some h \<rparr> \<rparr>)"

definition onStateChange :: "VelocityState \<Rightarrow> world \<Rightarrow> world" where
  "onStateChange newState w =
     (let w1 = w\<lparr> tracker := (tracker w)\<lparr> previousState := currentState (tracker w),
                                           currentState := newState \<rparr> \<rparr>;
          w2 = notifyStateChange newState (getOpacityForState newState) w1
      in if newState = STOPPED \<and> previousState (tracker w2) \<noteq> STOPPED
         then snd (setTimeout GraceCheck (microPauseIgnoreThreshold (config (tracker w2))) w2)
         else if newState \<noteq> STOPPED then cancelCountdown w2
         else w2)"

definition sampleVelocity :: "world \<Rightarrow> world" where
  "sampleVelocity w =
     (let recentChars = filter (\<lambda>t. now w - timestamp t < 1000) (charTimestamps (tracker w));
          charsPerSecond = length recentChars;
          cfg = config (tracker w);
          newState = (if of_nat charsPerSecond \<ge> flowThreshold cfg then FLOW
                      else if of_nat charsPerSecond \<ge> editingThreshold cfg then EDITING
                      else if of_nat charsPerSecond \<ge> reviewingThreshold cfg then REVIEWING
                      else STOPPED)
      in if newState \<noteq> currentState (tracker w) then onStateChange newState w else w)"

text \<open>The body of the countdown callback, before it clears its midpoint timer.\<close>

definition countdownExpired :: "(jsstring \<Rightarrow> jsstring) \<Rightarrow> world \<Rightarrow> world" where
  "countdownExpired lc w =
     (if currentState (tracker w) = STOPPED \<and> getCurrentText (tracker w)
      then let text = promptTextRef w
           in if passesPreFilters lc w text
              then executeAssessment text (notifyStateChange (currentState (tracker w)) 1 w)
              else w
      else w)"

subsection \<open>Timer callbacks and events\<close>

definition inactivityExpired :: "world \<Rightarrow> world" where
  "inactivityExpired w =
     (let w1 = w\<lparr> isTrackerActiveRef := False \<rparr>;
          w2 = (case velocityPollTimerRef w1 of
                  None \<Rightarrow> w1
                | Some h \<Rightarrow> if h \<noteq> 0 then (clearTimeout h w1)\<lparr> velocityPollTimerRef := None \<rparr>
                            else w1)
      in stop w2)"

text \<open>
  The bodies of the timer callbacks. The polling callback of the page script reads
  \<open>getCurrentVelocity\<close> for the display only and changes nothing here.
\<close>

fun runCallback :: "(jsstring \<Rightarrow> jsstring) \<Rightarrow> callback \<Rightarrow> world \<Rightarrow> world" where
  "runCallback lc SampleTick w = sampleVelocity w"
| "runCallback lc GraceCheck w =
     (if currentState (tracker w) = STOPPED then startCountdown w else w)"
| "runCallback lc Midpoint w =
     (if currentState (tracker w) = STOPPED
      then notifyStateChange (currentState (tracker w)) (8 / 10) w else w)"
| "runCallback lc (CountdownExpiry midpointTimer) w =
     clearTimeout midpointTimer (countdownExpired lc w)"
| "runCallback lc VelocityPoll w = w"
| "runCallback lc InactivityExpiry w = inactivityExpired w"

text \<open>
  The runtime runs a pending timer no earlier than its due time. After the callback, a
  timeout that is still pending is removed and an interval that is still pending is set to
  run again one period later.
\<close>

definition pendingTimer :: "nat \<Rightarrow> world \<Rightarrow> timer option" where
  "pendingTimer h w = find (\<lambda>t. handle t = h) (timers w)"

definition fire :: "(jsstring \<Rightarrow> jsstring) \<Rightarrow> nat \<Rightarrow> world \<Rightarrow> world" where
  "fire lc h w =
     (case pendingTimer h w of
        None \<Rightarrow> w
      | Some t \<Rightarrow>
          if now w < due t then w
          else let w1 = runCallback lc (action t) w
               in case period t of
                    None \<Rightarrow> clearTimeout h w1
                  | Some p \<Rightarrow>
                      w1\<lparr> timers := map (\<lambda>u. if handle u = h then u\<lparr> due := now w1 + p \<rparr> else u)
                                        (timers w1) \<rparr>)"

text \<open>The callback that index.tsx gives to \<open>platform.observeChanges\<close>.\<close>

definition observeText :: "jsstring \<Rightarrow> world \<Rightarrow> world" where
  "observeText text w =
     (let w1 = w\<lparr> promptTextRef := text \<rparr>;
          w2 = (if length text > length (previousTextForTracking w1)
                then let newChars = drop (length (previousTextForTracking w1)) text
                     in if isTrackerActiveRef w1
                        then resetInactivityTimer (fold trackKeystroke (codePoints newChars) w1)
                        else w1
                else w1)
      in w2\<lparr> previousTextForTracking := text \<rparr>)"

text \<open>The keydown handler for Cmd+Shift+S.\<close>

definition handleKeyboardShortcut :: "world \<Rightarrow> world" where
  "handleKeyboardShortcut w = (if isTrackerActiveRef w then forceTrigger w else w)"

text \<open>
  What can happen to the program: time passes (the clock never goes back: an elapsed time
  below zero counts as zero), the runtime runs a due timer, the observed
  field reports a new text, an input-method composition opens or closes, the user presses the
  shortcut, the user presses the Assess button of the panel.
\<close>

datatype event =
    Elapse int
  | Fire nat
  | TextChanged jsstring
  | Composing bool
  | Shortcut
  | AssessClicked

fun step :: "(jsstring \<Rightarrow> jsstring) \<Rightarrow> event \<Rightarrow> world \<Rightarrow> world" where
  "step lc (Elapse d) w = w\<lparr> now := now w + max 0 d \<rparr>"
| "step lc (Fire h) w = fire lc h w"
| "step lc (TextChanged text) w = observeText text w"
| "step lc (Composing b) w = setComposing b w"
| "step lc Shortcut w = handleKeyboardShortcut w"
| "step lc AssessClicked w = handleAssess None w"

definition exec :: "(jsstring \<Rightarrow> jsstring) \<Rightarrow> event list \<Rightarrow> world \<Rightarrow> world" where
  "exec lc es w = fold (step lc) es w"

text \<open>The states of the executions that begin when the page script is loaded.\<close>

inductive reachable :: "(jsstring \<Rightarrow> jsstring) \<Rightarrow> world \<Rightarrow> bool" for lc where
  reachable_init: "0 \<le> t0 \<Longrightarrow> reachable lc (init t0)"
| reachable_step: "reachable lc w \<Longrightarrow> reachable lc (step lc e w)"

text \<open>The pending countdown timers and the pending inactivity timers.\<close>

definition isCountdown :: "timer \<Rightarrow> bool" where
  "isCountdown t = (case action t of CountdownExpiry m \<Rightarrow> True | _ \<Rightarrow> False)"

definition activeCountdowns :: "world \<Rightarrow> nat list" where
  "activeCountdowns w = map handle (filter isCountdown (timers w))"

definition activeInactivityTimers :: "world \<Rightarrow> nat list" where
  "activeInactivityTimers w = map handle (filter (\<lambda>t. action t = InactivityExpiry) (timers w))"

definition pending :: "nat \<Rightarrow> world \<Rightarrow> bool" where
  "pending h w \<longleftrightarrow> h \<in> handle ` set (timers w)"


section \<open>The edit distance of the specification\<close>

text \<open>
  One edit inserts one character, deletes one character or replaces one character by another,
  anywhere in the string. The edit distance from \<open>a\<close> to \<open>b\<close> is the least number of edits
  that turn \<open>a\<close> into \<open>b\<close>.
\<close>

inductive edit1 :: "'a list \<Rightarrow> 'a list \<Rightarrow> bool" where
  insert_at: "edit1 (u @ v) (u @ c # v)"
| delete_at: "edit1 (u @ c # v) (u @ v)"
| replace_at: "c \<noteq> d \<Longrightarrow> edit1 (u @ c # v) (u @ d # v)"

definition editDistance :: "'a list \<Rightarrow> 'a list \<Rightarrow> nat" where
  "editDistance a b = (LEAST n. (edit1 ^^ n) a b)"

text \<open>The usual recurrence, an auxiliary of the proofs.\<close>

fun lev :: "'a list \<Rightarrow> 'a list \<Rightarrow> nat" where
  "lev [] ys = length ys"
| "lev (x # xs) [] = Suc (length xs)"
| "lev (x # xs) (y # ys) =
     min (min (lev xs (y # ys) + 1) (lev (x # xs) ys + 1))
         (lev xs ys + (if x = y then 0 else 1))"

text \<open>The table has \<open>m + 1\<close> rows of \<open>n + 1\<close> cells.\<close>

definition shaped :: "nat \<Rightarrow> nat \<Rightarrow> table \<Rightarrow> bool" where
  "shaped m n dp \<longleftrightarrow> length dp = m + 1 \<and> (\<forall>row \<in> set dp. length row = n + 1)"

text \<open>The cells already written when the loops stand at row \<open>i\<close>, column \<open>j\<close>.\<close>

definition done_before :: "nat \<Rightarrow> nat \<Rightarrow> nat \<Rightarrow> nat \<Rightarrow> bool" where
  "done_before i j i' j' \<longleftrightarrow> i' = 0 \<or> j' = 0 \<or> i' < i \<or> (i' = i \<and> j' < j)"

definition filled :: "'a list \<Rightarrow> 'a list \<Rightarrow> nat \<Rightarrow> nat \<Rightarrow> table \<Rightarrow> bool" where
  "filled a b i j dp \<longleftrightarrow> shaped (length a) (length b) dp \<and>
     (\<forall>i' \<le> length a. \<forall>j' \<le> length b. done_before i j i' j' \<longrightarrow>
        dp ! i' ! j' = editDistance (take i' a) (take j' b))"

section \<open>Invariants of the executions\<close>

text \<open>Every pending timer has a handle that the runtime has already given out.\<close>

definition handles_ok :: "world \<Rightarrow> bool" where
  "handles_ok w \<longleftrightarrow> 0 < nextHandle w \<and> (\<forall>h. pending h w \<longrightarrow> h < nextHandle w)"

text \<open>
  From \<open>w\<close> to \<open>w'\<close> handles are only given out in increasing order: a timer pending in
  \<open>w'\<close> was pending in \<open>w\<close> or has a handle given out in between.
\<close>

definition evolves :: "world \<Rightarrow> world \<Rightarrow> bool" where
  "evolves w w' \<longleftrightarrow> nextHandle w \<le> nextHandle w' \<and>
     (\<forall>h. pending h w' \<longrightarrow> pending h w \<or> (nextHandle w \<le> h \<and> h < nextHandle w'))"

text \<open>The countdown handle that the tracker holds was given out by the runtime.\<close>

definition countdown_handle_ok :: "world \<Rightarrow> bool" where
  "countdown_handle_ok w \<longleftrightarrow>
     (case countdownTimer (tracker w) of None \<Rightarrow> True | Some h \<Rightarrow> 0 < h \<and> h < nextHandle w)"

text \<open>
  From \<open>w\<close> to \<open>w'\<close> the tracker's countdown handle was cleared, kept, or set to a handle
  given out in between.
\<close>

definition countdown_handle_step :: "world \<Rightarrow> world \<Rightarrow> bool" where
  "countdown_handle_step w w' \<longleftrightarrow>
     countdownTimer (tracker w') = None \<or>
     countdownTimer (tracker w') = countdownTimer (tracker w) \<or>
     (countdownTimer (tracker w') = Some (nextHandle w + 1) \<and> nextHandle w + 2 \<le> nextHandle w')"

text \<open>
  Handles are positive, below the next handle and pairwise distinct, and every pending
  inactivity timer is the one whose handle the page script holds.
\<close>

definition timers_ok :: "world \<Rightarrow> bool" where
  "timers_ok w \<longleftrightarrow>
     0 < nextHandle w \<and>
     (\<forall>t \<in> set (timers w). 0 < handle t \<and> handle t < nextHandle w) \<and>
     distinct (map handle (timers w)) \<and>
     (\<forall>t \<in> set (timers w). action t = InactivityExpiry \<longrightarrow>
        inactivityTimerRef w = Some (handle t))"

text \<open>The clock, the time of the last assessment and the times in the trigger log.\<close>

definition times_ok :: "world \<Rightarrow> bool" where
  "times_ok w \<longleftrightarrow> lastAssessmentTime (tracker w) \<le> now w \<and>
     (\<forall>e \<in> set (triggered w). fst e \<le> lastAssessmentTime (tracker w))"




section \<open>Concrete texts and states for the examples\<close>

text \<open>A text of Basic Latin characters as a JavaScript string.\<close>

definition ascii :: "string \<Rightarrow> jsstring" where
  "ascii s = map of_char s"

text \<open>
  The page is loaded at clock 1000000, the field holds a draft and the user presses Assess,
  which starts the tracker.
\<close>

definition draft :: jsstring where
  "draft = ascii ''Summarise this text''"

definition activated :: world where
  "activated = exec toLowerLatin [TextChanged draft, AssessClicked] (init 1000000)"

text \<open>The word testing followed by three spaces, and followed by eight spaces.\<close>

definition padded10 :: jsstring where
  "padded10 = ascii ''testing   ''"

definition padded15 :: jsstring where
  "padded15 = ascii ''testing        ''"

definition holding :: "jsstring \<Rightarrow> world" where
  "holding text = exec toLowerLatin [TextChanged draft, AssessClicked, TextChanged text] (init 1000000)"

text \<open>
  A manual trigger on a text of ten characters; 30 seconds later the user extends it by five
  characters, the tracker sees FLOW and then STOPPED, the grace check (timer 6) arms a
  countdown (timer 8), and 6000 ms pass.
\<close>

definition brief :: jsstring where
  "brief = ascii ''Summarise!''"

definition revised :: jsstring where
  "revised = ascii ''Summarise this!''"

definition countdown_due :: world where
  "countdown_due =
     exec toLowerLatin
       [TextChanged brief, AssessClicked, Shortcut, Elapse 30000, TextChanged revised,
        Elapse 500, Fire 1, Elapse 500, Fire 1, Elapse 1500, Fire 6, Elapse 6000]
       (init 1000000)"


text \<open>
  The started tracker sees five new characters at clock 1000000; a sampling tick runs 500 ms
  later, and the next one is due another 500 ms later.
\<close>

definition before_tick :: world where
  "before_tick =
     exec toLowerLatin
       [TextChanged brief, AssessClicked, TextChanged revised, Elapse 500, Fire 1, Elapse 500]
       (init 1000000)"

text \<open>The started tracker sees ten new characters at once, and 7 ms pass.\<close>

definition buffer_full :: world where
  "buffer_full =
     exec toLowerLatin
       [TextChanged brief, AssessClicked, TextChanged (ascii ''Summarise!0123456789''), Elapse 7]
       (init 1000000)"

subsection \<open>A run in which the tracker leaves STOPPED and comes back within the grace period\<close>

text \<open>Some time passes and the sampling timer (timer 1) runs.\<close>

definition tick :: "int \<Rightarrow> event list" where
  "tick d = [Elapse d, Fire 1]"

text \<open>
  Clock 1000000: the field holds the draft, the user presses Assess. The user types \<open>a\<close>
  at 1000500; the samples at 1001000 and 1001500 see EDITING and then STOPPED, and the second
  schedules a grace check (timer 5, due 1003000). The user types \<open>b\<close> at 1001502; the next two
  samples run 3 ms and 1 ms late, at 1002003 and 1002504, and see EDITING and then STOPPED
  again, which schedules a second grace check (timer 7, due 1004004). At 1003000 the first
  grace check runs in state STOPPED and arms a countdown (timer 9, due 1011000).
\<close>

definition once_armed :: world where
  "once_armed =
     exec toLowerLatin
       ([TextChanged draft, AssessClicked] @ tick 500 @
        [TextChanged (draft @ ascii ''a'')] @ tick 500 @ tick 500 @
        [Elapse 2, TextChanged (draft @ ascii ''ab'')] @ tick 501 @ tick 501 @
        [Elapse 496, Fire 5])
       (init 1000000)"

text \<open>
  The samples at 1003004, 1003504 and 1004004 see STOPPED; at 1004004 the second grace check
  runs and arms a countdown again (timer 11, due 1012004).
\<close>

definition twice_armed :: world where
  "twice_armed = exec toLowerLatin (tick 4 @ tick 500 @ tick 500 @ [Fire 7]) once_armed"

text \<open>
  The user types \<open>c\<close> at 1005000 and the sample at 1005004 sees EDITING: the tracker leaves
  STOPPED.
\<close>

definition resumed :: world where
  "resumed =
     exec toLowerLatin
       (tick 500 @ [Elapse 496, TextChanged (draft @ ascii ''abc'')] @ tick 4)
       twice_armed"

text \<open>
  The user types nothing more. The midpoint timers (8 and 10) run when due, the sample at
  1006004 sees STOPPED and schedules a grace check (timer 13), which arms a countdown at
  1007504 (timers 14 and 15); the samples go on every 500 ms until the clock reads 1011000.
\<close>

definition orphan_due :: world where
  "orphan_due =
     exec toLowerLatin
       (tick 500 @ [Elapse 496, Fire 8] @ tick 4 @ tick 500 @ tick 500 @ [Fire 10] @
        tick 500 @ [Fire 13] @ tick 500 @ tick 500 @ tick 500 @ tick 500 @ tick 500 @
        tick 500 @ [Fire 14, Elapse 496])
       resumed"

section \<open>The recurrence computes the edit distance\<close>

lemma lev_Nil2: "lev xs [] = length xs"
  by (cases xs) auto

lemma lev_same: "lev xs xs = 0"
  by (induction xs) simp_all

lemma lev_arm_del: "lev (x # xs) (y # ys) \<le> lev xs (y # ys) + 1"
  and lev_arm_ins: "lev (x # xs) (y # ys) \<le> lev (x # xs) ys + 1"
  and lev_arm_sub: "lev (x # xs) (y # ys) \<le> lev xs ys + 1"
  and lev_arm_copy: "lev (x # xs) (x # ys) \<le> lev xs ys"
  by (simp_all add: min_le_iff_disj)

lemma lev_arm_cases:
  "lev (x # xs) (y # ys) = lev xs (y # ys) + 1 \<or>
   lev (x # xs) (y # ys) = lev (x # xs) ys + 1 \<or>
   (x \<noteq> y \<and> lev (x # xs) (y # ys) = lev xs ys + 1) \<or>
   (x = y \<and> lev (x # xs) (y # ys) = lev xs ys)"
  by (simp add: min_def)

declare lev.simps(3) [simp del]

lemma lev_Cons_target: "lev xs (c # v) \<le> lev xs v + 1"
  using lev_arm_ins[of _ _ c v] by (cases xs) (simp_all add: lev_Nil2)

lemma lev_Cons_source: "lev (x # xs) v \<le> lev xs v + 1"
  using lev_arm_del[of x xs] by (cases v) (simp_all add: lev_Nil2)

lemma lev_drop_target: "lev xs v \<le> lev xs (c # v) + 1"
proof (induction xs)
  case Nil
  then show ?case by simp
next
  case (Cons x xs)
  show ?case
    using Cons lev_Cons_source[of x xs v] lev_arm_cases[of x xs c v] by linarith
qed

lemma lev_drop_source: "lev xs v \<le> lev (c # xs) v + 1"
proof (induction v)
  case Nil
  then show ?case by (simp add: lev_Nil2)
next
  case (Cons y ys)
  show ?case
    using Cons lev_Cons_target[of xs y ys] lev_arm_cases[of c xs y ys] by linarith
qed

lemma lev_swap_target: "lev xs (c # v) \<le> lev xs (d # v) + 1"
proof (induction xs)
  case Nil
  then show ?case by simp
next
  case (Cons x xs)
  show ?case
    using Cons lev_arm_cases[of x xs d v] lev_arm_del[of x xs c v]
      lev_arm_ins[of x xs c v] lev_arm_sub[of x xs c v]
    by linarith
qed

text \<open>One edit of the target changes the recurrence's value by at most one.\<close>

lemma lev_insert_at: "lev xs (u @ c # v) \<le> lev xs (u @ v) + 1"
proof (induction xs u rule: lev.induct)
  case (1 ys)
  then show ?case by simp
next
  case (2 x xs)
  show ?case using lev_Cons_target[of "x # xs" c v] by simp
next
  case (3 x xs y ys)
  show ?case
    using "3.IH" lev_arm_cases[of x xs y "ys @ v"] lev_arm_del[of x xs y "ys @ c # v"]
      lev_arm_ins[of x xs y "ys @ c # v"] lev_arm_sub[of x xs y "ys @ c # v"]
      lev_arm_copy[of x xs "ys @ c # v"]
    by (cases "x = y") (simp_all, linarith+)
qed

lemma lev_delete_at: "lev xs (u @ v) \<le> lev xs (u @ c # v) + 1"
proof (induction xs u rule: lev.induct)
  case (1 ys)
  then show ?case by simp
next
  case (2 x xs)
  show ?case using lev_drop_target[of "x # xs" v c] by simp
next
  case (3 x xs y ys)
  show ?case
    using "3.IH" lev_arm_cases[of x xs y "ys @ c # v"] lev_arm_del[of x xs y "ys @ v"]
      lev_arm_ins[of x xs y "ys @ v"] lev_arm_sub[of x xs y "ys @ v"]
      lev_arm_copy[of x xs "ys @ v"]
    by (cases "x = y") (simp_all, linarith+)
qed

lemma lev_replace_at: "lev xs (u @ c # v) \<le> lev xs (u @ d # v) + 1"
proof (induction xs u rule: lev.induct)
  case (1 ys)
  then show ?case by simp
next
  case (2 x xs)
  show ?case using lev_swap_target[of "x # xs" c v d] by simp
next
  case (3 x xs y ys)
  show ?case
    using "3.IH" lev_arm_cases[of x xs y "ys @ d # v"] lev_arm_del[of x xs y "ys @ c # v"]
      lev_arm_ins[of x xs y "ys @ c # v"] lev_arm_sub[of x xs y "ys @ c # v"]
      lev_arm_copy[of x xs "ys @ c # v"]
    by (cases "x = y") (simp_all, linarith+)
qed

lemma lev_edit1: "edit1 zs ys \<Longrightarrow> lev xs ys \<le> lev xs zs + 1"
  by (induction rule: edit1.induct) (rule lev_insert_at lev_delete_at lev_replace_at)+

lemma lev_lower: "(edit1 ^^ n) xs ys \<Longrightarrow> lev xs ys \<le> n"
proof (induction n arbitrary: ys)
  case 0
  then show ?case by (simp add: lev_same)
next
  case (Suc n)
  then obtain zs where "(edit1 ^^ n) xs zs" "edit1 zs ys" by auto
  then show ?case using Suc.IH[of zs] lev_edit1[of zs ys xs] by simp
qed

lemma edit1_Cons: "edit1 u v \<Longrightarrow> edit1 (x # u) (x # v)"
proof (induction rule: edit1.induct)
  case (insert_at u v c)
  show ?case using edit1.insert_at[of "x # u" v c] by simp
next
  case (delete_at u c v)
  show ?case using edit1.delete_at[of "x # u" c v] by simp
next
  case (replace_at c d u v)
  then show ?case using edit1.replace_at[of c d "x # u" v] by simp
qed

lemma edits_Cons: "(edit1 ^^ n) u v \<Longrightarrow> (edit1 ^^ n) (x # u) (x # v)"
proof (induction n arbitrary: v)
  case 0
  then show ?case by simp
next
  case (Suc n)
  then obtain w where "(edit1 ^^ n) u w" "edit1 w v" by auto
  then show ?case using Suc.IH[of w] edit1_Cons[of w v x] by auto
qed

lemma edits_from_Nil: "(edit1 ^^ length ys) [] ys"
proof (induction ys rule: rev_induct)
  case Nil
  then show ?case by simp
next
  case (snoc y ys)
  have "edit1 (ys @ []) (ys @ y # [])" by (rule edit1.insert_at)
  with snoc show ?case by auto
qed

lemma edits_to_Nil: "(edit1 ^^ length xs) xs []"
proof (induction xs)
  case Nil
  then show ?case by simp
next
  case (Cons x xs)
  have "edit1 ([] @ x # xs) ([] @ xs)" by (rule edit1.delete_at)
  then have "edit1 (x # xs) xs" by simp
  then show ?case using relpowp_Suc_I2[OF _ Cons] by simp
qed

lemma lev_upper: "(edit1 ^^ lev xs ys) xs ys"
proof (induction xs ys rule: lev.induct)
  case (1 ys)
  then show ?case by (simp add: edits_from_Nil)
next
  case (2 x xs)
  show ?case using edits_to_Nil[of "x # xs"] by simp
next
  case (3 x xs y ys)
  have del: "edit1 (x # xs) xs" using edit1.delete_at[of "[]" x xs] by simp
  have ins: "edit1 ys (y # ys)" using edit1.insert_at[of "[]" ys y] by simp
  have a: "(edit1 ^^ (lev xs (y # ys) + 1)) (x # xs) (y # ys)"
    using relpowp_Suc_I2[OF del "3.IH"(1)] by simp
  have b: "(edit1 ^^ (lev (x # xs) ys + 1)) (x # xs) (y # ys)"
    using relpowp_Suc_I[OF "3.IH"(2) ins] by simp
  have c: "(edit1 ^^ (lev xs ys + (if x = y then 0 else 1))) (x # xs) (y # ys)"
  proof (cases "x = y")
    case True
    then show ?thesis using edits_Cons[OF "3.IH"(3), of x] by simp
  next
    case False
    then have "edit1 (x # xs) (y # xs)" using edit1.replace_at[of x y "[]" xs] by simp
    then show ?thesis using relpowp_Suc_I2[OF _ edits_Cons[OF "3.IH"(3), of y]] False by simp
  qed
  show ?case using a b c lev_arm_cases[of x xs y ys] by (cases "x = y") auto
qed

lemma editDistance_lev: "editDistance xs ys = lev xs ys"
  unfolding editDistance_def by (rule Least_equality) (auto intro: lev_upper lev_lower)

lemma edit1_rev: "edit1 u v \<Longrightarrow> edit1 (rev u) (rev v)"
proof (induction rule: edit1.induct)
  case (insert_at u v c)
  show ?case using edit1.insert_at[of "rev v" "rev u" c] by simp
next
  case (delete_at u c v)
  show ?case using edit1.delete_at[of "rev v" c "rev u"] by simp
next
  case (replace_at c d u v)
  then show ?case using edit1.replace_at[of c d "rev v" "rev u"] by simp
qed

lemma edits_rev: "(edit1 ^^ n) u v \<Longrightarrow> (edit1 ^^ n) (rev u) (rev v)"
proof (induction n arbitrary: v)
  case 0
  then show ?case by simp
next
  case (Suc n)
  then obtain w where "(edit1 ^^ n) u w" "edit1 w v" by auto
  then show ?case using Suc.IH[of w] edit1_rev[of w v] by auto
qed

lemma editDistance_rev: "editDistance (rev u) (rev v) = editDistance u v"
proof -
  have "(edit1 ^^ n) (rev u) (rev v) = (edit1 ^^ n) u v" for n
    using edits_rev[of n u v] edits_rev[of n "rev u" "rev v"] by auto
  then show ?thesis by (simp add: editDistance_def)
qed

lemma editDistance_snoc:
  "editDistance (xs @ [x]) (ys @ [y]) =
     (if x = y then editDistance xs ys
      else min (min (editDistance xs (ys @ [y])) (editDistance (xs @ [x]) ys)) (editDistance xs ys) + 1)"
proof -
  have "editDistance (xs @ [x]) (ys @ [y]) = lev (x # rev xs) (y # rev ys)"
    using editDistance_rev[of "xs @ [x]" "ys @ [y]"] by (simp add: editDistance_lev)
  moreover have "editDistance xs ys = lev (rev xs) (rev ys)"
    using editDistance_rev[of xs ys] by (simp add: editDistance_lev)
  moreover have "editDistance xs (ys @ [y]) = lev (rev xs) (y # rev ys)"
    using editDistance_rev[of xs "ys @ [y]"] by (simp add: editDistance_lev)
  moreover have "editDistance (xs @ [x]) ys = lev (x # rev xs) (rev ys)"
    using editDistance_rev[of "xs @ [x]" ys] by (simp add: editDistance_lev)
  moreover have "lev (x # u) (y # v) =
     (if x = y then lev u v else min (min (lev u (y # v)) (lev (x # u) v)) (lev u v) + 1)" for u v
    using lev_drop_target[of u v y] lev_drop_source[of u v x]
      lev_arm_cases[of x u y v] lev_arm_del[of x u y v] lev_arm_ins[of x u y v]
      lev_arm_sub[of x u y v] lev_arm_copy[of x u v]
    by (cases "x = y") (simp_all, linarith+)
  ultimately show ?thesis by simp
qed

lemma editDistance_Nil1: "editDistance [] ys = length ys"
  by (simp add: editDistance_lev)

lemma editDistance_Nil2: "editDistance xs [] = length xs"
  by (simp add: editDistance_lev lev_Nil2)

lemma editDistance_same: "editDistance xs xs = 0"
  by (simp add: editDistance_lev lev_same)

lemma lev_le_max: "lev xs ys \<le> max (length xs) (length ys)"
proof (induction xs ys rule: lev.induct)
  case (1 ys)
  then show ?case by simp
next
  case (2 x xs)
  then show ?case by simp
next
  case (3 x xs y ys)
  then show ?case using lev_arm_sub[of x xs y ys] by simp
qed

section \<open>The table loops of levenshteinDistance\<close>

lemma shaped_newTable: "shaped m n (newTable m n)"
  by (simp add: shaped_def newTable_def)

lemma shaped_store: "shaped m n dp \<Longrightarrow> shaped m n (store dp i j v)"
proof -
  assume sh: "shaped m n dp"
  show ?thesis
  proof (cases "i \<le> m")
    case True
    have "set (dp[i := (dp ! i)[j := v]]) \<subseteq> insert ((dp ! i)[j := v]) (set dp)"
      by (rule set_update_subset_insert)
    then show ?thesis using sh True by (auto simp: shaped_def store_def)
  next
    case False
    then show ?thesis using sh by (simp add: shaped_def store_def list_update_beyond)
  qed
qed

lemma nth_store:
  "shaped m n dp \<Longrightarrow> i \<le> m \<Longrightarrow> j \<le> n \<Longrightarrow> i' \<le> m \<Longrightarrow>
   store dp i j v ! i' ! j' = (if i' = i \<and> j' = j then v else dp ! i' ! j')"
  by (auto simp: shaped_def store_def nth_list_update)

lemma fillColumn0_spec:
  "shaped m n dp \<Longrightarrow>
   shaped m n (fillColumn0 m i dp) \<and>
   (\<forall>i' \<le> m. \<forall>j'. fillColumn0 m i dp ! i' ! j' = (if j' = 0 \<and> i \<le> i' then i' else dp ! i' ! j'))"
proof (induction m i dp rule: fillColumn0.induct)
  case (1 m i dp)
  show ?case
  proof (cases "i \<le> m")
    case True
    have sh: "shaped m n (store dp i 0 i)" using "1.prems" by (rule shaped_store)
    show ?thesis
      using "1.IH"[OF True sh] True "1.prems"
      by (subst fillColumn0.simps, subst (2) fillColumn0.simps) (auto simp: nth_store)
  next
    case False
    then show ?thesis using "1.prems" by (subst fillColumn0.simps, subst (2) fillColumn0.simps) auto
  qed
qed

lemma fillRow0_spec:
  "shaped m n dp \<Longrightarrow>
   shaped m n (fillRow0 n j dp) \<and>
   (\<forall>i' \<le> m. \<forall>j'. fillRow0 n j dp ! i' ! j' =
      (if i' = 0 \<and> j \<le> j' \<and> j' \<le> n then j' else dp ! i' ! j'))"
proof (induction n j dp rule: fillRow0.induct)
  case (1 n j dp)
  show ?case
  proof (cases "j \<le> n")
    case True
    have sh: "shaped m n (store dp 0 j j)" using "1.prems" by (rule shaped_store)
    show ?thesis
      using "1.IH"[OF True sh] True "1.prems"
      by (subst fillRow0.simps, subst (2) fillRow0.simps) (auto simp: nth_store)
  next
    case False
    then show ?thesis using "1.prems" by (subst fillRow0.simps, subst (2) fillRow0.simps) auto
  qed
qed

lemma filled_init:
  "filled a b 1 1 (fillRow0 (length b) 0 (fillColumn0 (length a) 0 (newTable (length a) (length b))))"
proof -
  let ?m = "length a" and ?n = "length b"
  have c: "shaped ?m ?n (fillColumn0 ?m 0 (newTable ?m ?n))"
    "\<forall>i' \<le> ?m. \<forall>j'. fillColumn0 ?m 0 (newTable ?m ?n) ! i' ! j'
        = (if j' = 0 \<and> 0 \<le> i' then i' else newTable ?m ?n ! i' ! j')"
    using fillColumn0_spec[OF shaped_newTable, of ?m ?n 0] by blast+
  show ?thesis
    using fillRow0_spec[OF c(1), of 0] c(2)
    by (auto simp: filled_def done_before_def editDistance_Nil1 editDistance_Nil2)
qed

lemma take_snoc: "0 < i \<Longrightarrow> i \<le> length a \<Longrightarrow> take i a = take (i - 1) a @ [a ! (i - 1)]"
  using take_Suc_conv_app_nth[of "i - 1" a] by simp

lemma cellValue_correct:
  assumes f: "filled a b i j dp" and i: "0 < i" "i \<le> length a" and j: "0 < j" "j \<le> length b"
  shows "cellValue a b dp i j = editDistance (take i a) (take j b)"
proof -
  have diag: "dp ! (i - 1) ! (j - 1) = editDistance (take (i - 1) a) (take (j - 1) b)"
    using f i j by (simp add: filled_def done_before_def)
  have up: "dp ! (i - 1) ! j = editDistance (take (i - 1) a) (take j b)"
    using f i j by (simp add: filled_def done_before_def)
  have left: "dp ! i ! (j - 1) = editDistance (take i a) (take (j - 1) b)"
    using f i j by (simp add: filled_def done_before_def)
  have "editDistance (take i a) (take j b) =
      editDistance (take (i - 1) a @ [a ! (i - 1)]) (take (j - 1) b @ [b ! (j - 1)])"
    using take_snoc[OF i] take_snoc[OF j] by simp
  then show ?thesis
    unfolding cellValue_def diag up left editDistance_snoc
    using take_snoc[OF i] take_snoc[OF j] by simp
qed

lemma innerLoop_filled:
  "filled a b i j dp \<Longrightarrow> 0 < i \<Longrightarrow> i \<le> length a \<Longrightarrow> 0 < j \<Longrightarrow>
   filled a b (i + 1) 1 (innerLoop a b i j dp)"
proof (induction a b i j dp rule: innerLoop.induct)
  case (1 a b i j dp)
  show ?case
  proof (cases "j \<le> length b")
    case True
    have v: "cellValue a b dp i j = editDistance (take i a) (take j b)"
      using cellValue_correct[OF "1.prems"(1,2,3,4) True] .
    have sh: "shaped (length a) (length b) dp" using "1.prems"(1) by (simp add: filled_def)
    have "filled a b i (j + 1) (store dp i j (cellValue a b dp i j))"
      unfolding filled_def
    proof (intro conjI allI impI)
      show "shaped (length a) (length b) (store dp i j (cellValue a b dp i j))"
        using sh by (rule shaped_store)
    next
      fix i' j'
      assume b: "i' \<le> length a" "j' \<le> length b" and d: "done_before i (j + 1) i' j'"
      show "store dp i j (cellValue a b dp i j) ! i' ! j' = editDistance (take i' a) (take j' b)"
      proof (cases "i' = i \<and> j' = j")
        case True
        then show ?thesis using v nth_store[OF sh "1.prems"(3) \<open>j \<le> length b\<close> b(1)] by simp
      next
        case False
        then have "done_before i j i' j'" using d by (auto simp: done_before_def)
        then show ?thesis
          using False "1.prems"(1) b nth_store[OF sh "1.prems"(3) \<open>j \<le> length b\<close> b(1)]
          by (auto simp: filled_def)
      qed
    qed
    then show ?thesis
      using "1.IH"[OF True _ "1.prems"(2,3)] True by (subst innerLoop.simps) simp
  next
    case False
    have "done_before i j i' j'" if "done_before (i + 1) 1 i' j'" "j' \<le> length b" for i' j'
      using that False by (auto simp: done_before_def)
    then have "filled a b (i + 1) 1 dp"
      using "1.prems"(1) unfolding filled_def by blast
    then show ?thesis using False by (subst innerLoop.simps) simp
  qed
qed

lemma outerLoop_filled:
  "filled a b i 1 dp \<Longrightarrow> 0 < i \<Longrightarrow> i \<le> length a + 1 \<Longrightarrow>
   filled a b (length a + 1) 1 (outerLoop a b i dp)"
proof (induction a b i dp rule: outerLoop.induct)
  case (1 a b i dp)
  show ?case
  proof (cases "i \<le> length a")
    case True
    have "filled a b (i + 1) 1 (innerLoop a b i 1 dp)"
      using innerLoop_filled[OF "1.prems"(1,2) True] by simp
    then show ?thesis
      using "1.IH"[OF True] True by (subst outerLoop.simps) simp
  next
    case False
    then have "i = length a + 1" using "1.prems"(3) by simp
    then show ?thesis using "1.prems"(1) False by (subst outerLoop.simps) simp
  qed
qed

lemma levenshteinDistance_editDistance: "levenshteinDistance a b = editDistance a b"
proof -
  let ?dp = "outerLoop a b 1 (fillRow0 (length b) 0 (fillColumn0 (length a) 0 (newTable (length a) (length b))))"
  have "filled a b (length a + 1) 1 ?dp"
    using outerLoop_filled[OF filled_init, of a b] by simp
  then have "?dp ! length a ! length b = editDistance (take (length a) a) (take (length b) b)"
    unfolding filled_def done_before_def by auto
  then show ?thesis by (simp add: levenshteinDistance_def Let_def)
qed

lemma levenshteinDistance_le_max: "levenshteinDistance a b \<le> max (length a) (length b)"
  by (simp add: levenshteinDistance_editDistance editDistance_lev lev_le_max)

section \<open>Change-Distance Evaluator\<close>

text \<open>
  Claim C4. For all strings \<open>a\<close> and \<open>b\<close>, \<open>calculateChangePercent a b\<close> lies between 0 and
  1; it is the least number of single-character insertions, deletions and replacements that
  turn \<open>a\<close> into \<open>b\<close>, divided by the larger of the two lengths, whenever that quotient has a
  nonzero denominator; and it is exactly 1 whenever \<open>b\<close> is empty. The result is a function
  of the two arguments alone.
\<close>

theorem calculateChangePercent_is_normalised_edit_distance:
  "0 \<le> calculateChangePercent a b \<and> calculateChangePercent a b \<le> 1 \<and>
   (b = [] \<longrightarrow> calculateChangePercent a b = 1) \<and>
   (a \<noteq> [] \<or> b \<noteq> [] \<longrightarrow>
      calculateChangePercent a b = of_nat (editDistance a b) / of_nat (max (length a) (length b)))"
proof -
  let ?d = "levenshteinDistance a b" and ?m = "max (length a) (length b)"
  have le: "(of_nat ?d :: rat) \<le> of_nat ?m"
    using levenshteinDistance_le_max[of a b] by (simp only: of_nat_le_iff)
  have frac: "(of_nat ?d :: rat) / of_nat ?m \<le> 1" if "0 < ?m"
    using le that by (simp add: divide_le_eq)
  have pos: "0 \<le> (of_nat ?d :: rat) / of_nat ?m" by simp
  show ?thesis
  proof (cases "b = []")
    case True
    have c1: "calculateChangePercent a b = 1"
      using True by (simp add: calculateChangePercent_def)
    have q: "a \<noteq> [] \<or> b \<noteq> [] \<longrightarrow>
        calculateChangePercent a b = of_nat (editDistance a b) / of_nat ?m"
    proof
      assume "a \<noteq> [] \<or> b \<noteq> []"
      then have "a \<noteq> []" using True by simp
      then have "(of_nat (length a) :: rat) / of_nat (length a) = 1" by simp
      then show "calculateChangePercent a b = of_nat (editDistance a b) / of_nat ?m"
        using True c1 by (simp add: editDistance_Nil2)
    qed
    show ?thesis
    proof (intro conjI)
      show "0 \<le> calculateChangePercent a b" using c1 by simp
      show "calculateChangePercent a b \<le> 1" using c1 by simp
      show "b = [] \<longrightarrow> calculateChangePercent a b = 1" using c1 by blast
      show "a \<noteq> [] \<or> b \<noteq> [] \<longrightarrow>
        calculateChangePercent a b = of_nat (editDistance a b) / of_nat ?m" by (rule q)
    qed
  next
    case False
    then have "0 < length b" by simp
    then have m: "0 < ?m" by linarith
    show ?thesis
      using False m frac[OF m] pos
      by (simp add: calculateChangePercent_def Let_def levenshteinDistance_editDistance)
  qed
qed

lemma levenshteinDistance_kitten_sitting:
  "levenshteinDistance [0x6B, 0x69, 0x74, 0x74, 0x65, 0x6E :: codeunit]
     [0x73, 0x69, 0x74, 0x74, 0x69, 0x6E, 0x67] = 3"
  by code_simp

text \<open>
  The theorem at \<open>a = "a"\<close>, \<open>b = ""\<close> (both premises hold, the value is 1) and at
  \<open>a = "kitten"\<close>, \<open>b = "sitting"\<close> (three edits over seven code units).
\<close>

theorem calculateChangePercent_is_normalised_edit_distance_witness:
  "([] :: jsstring) = [] \<and> ([0x61] :: jsstring) \<noteq> [] \<and>
   calculateChangePercent [0x61] [] = 1 \<and>
   calculateChangePercent [0x61] [] = of_nat (editDistance [0x61 :: codeunit] []) / 1 \<and>
   calculateChangePercent [0x6B, 0x69, 0x74, 0x74, 0x65, 0x6E]
     [0x73, 0x69, 0x74, 0x74, 0x69, 0x6E, 0x67] = 3 / 7 \<and>
   editDistance [0x6B, 0x69, 0x74, 0x74, 0x65, 0x6E :: codeunit]
     [0x73, 0x69, 0x74, 0x74, 0x69, 0x6E, 0x67] = 3"
proof -
  let ?k = "[0x6B, 0x69, 0x74, 0x74, 0x65, 0x6E] :: jsstring"
  let ?s = "[0x73, 0x69, 0x74, 0x74, 0x69, 0x6E, 0x67] :: jsstring"
  have v: "calculateChangePercent ?k ?s = 3 / 7"
    by (simp add: calculateChangePercent_def levenshteinDistance_kitten_sitting)
  have "calculateChangePercent ?k ?s = of_nat (editDistance ?k ?s) / 7"
    using calculateChangePercent_is_normalised_edit_distance[of ?k ?s] by simp
  then have e: "editDistance ?k ?s = 3" using v by simp
  show ?thesis
    using calculateChangePercent_is_normalised_edit_distance[of "[0x61]" "[]"] v e by simp
qed

text \<open>
  Claim C5, as stated: \<open>changeDistance(a, a) = 0\<close> for every \<open>a\<close>, the empty string
  included. At the empty string the function returns 1, because an empty second argument is
  answered before any distance is computed.
\<close>

theorem changeDistance_reflexive_counterexample:
  "calculateChangePercent [] [] = 1 \<and> calculateChangePercent [] [] \<noteq> 0"
  by (simp add: calculateChangePercent_def)

text \<open>
  Claim C5, amended: \<open>changeDistance(a, a) = 0\<close> for every non-empty \<open>a\<close>, and
  \<open>changeDistance(a, "") = 1\<close> for every \<open>a\<close>, the empty string included.
\<close>

theorem changeDistance_identities:
  "(a \<noteq> [] \<longrightarrow> calculateChangePercent a a = 0) \<and> calculateChangePercent a [] = 1"
  by (simp add: calculateChangePercent_def Let_def levenshteinDistance_editDistance
      editDistance_same)

theorem changeDistance_identities_witness:
  "([0x68, 0x69] :: jsstring) \<noteq> [] \<and> calculateChangePercent [0x68, 0x69] [0x68, 0x69] = 0 \<and>
   calculateChangePercent [0x68, 0x69] [] = 1"
  using changeDistance_identities[of "[0x68, 0x69]"] by simp

section \<open>Timer handles along an execution\<close>

named_theorems evolves_intros

lemma evolves_refl: "evolves w w"
  by (simp add: evolves_def)

lemma evolves_trans: "evolves a b \<Longrightarrow> evolves b c \<Longrightarrow> evolves a c"
  unfolding evolves_def by (meson le_trans less_le_trans)

lemma evolves_fields [simp]:
  "evolves v (w\<lparr> now := a \<rparr>) = evolves v w"
  "evolves v (w\<lparr> tracker := b \<rparr>) = evolves v w"
  "evolves v (w\<lparr> promptTextRef := c \<rparr>) = evolves v w"
  "evolves v (w\<lparr> previousTextForTracking := d \<rparr>) = evolves v w"
  "evolves v (w\<lparr> isTrackerActiveRef := e \<rparr>) = evolves v w"
  "evolves v (w\<lparr> inactivityTimerRef := f \<rparr>) = evolves v w"
  "evolves v (w\<lparr> velocityPollTimerRef := g \<rparr>) = evolves v w"
  "evolves v (w\<lparr> triggered := i \<rparr>) = evolves v w"
  "evolves v (w\<lparr> feedback := j \<rparr>) = evolves v w"
  by (simp_all add: evolves_def pending_def)

lemma evolves_setTimeout [evolves_intros]:
  "evolves v w \<Longrightarrow> evolves v (snd (setTimeout cb d w))"
  unfolding evolves_def pending_def setTimeout_def by (auto simp: less_Suc_eq_le)

lemma evolves_setInterval [evolves_intros]:
  "evolves v w \<Longrightarrow> evolves v (snd (setInterval cb d w))"
  unfolding evolves_def pending_def setInterval_def by (auto simp: less_Suc_eq_le)

lemma evolves_clearTimeout [evolves_intros]:
  "evolves v w \<Longrightarrow> evolves v (clearTimeout h w)"
  unfolding evolves_def pending_def clearTimeout_def by auto

lemma evolves_cancelCountdown [evolves_intros]:
  "evolves v w \<Longrightarrow> evolves v (cancelCountdown w)"
  by (auto simp: cancelCountdown_def split: option.splits intro: evolves_intros)

lemma evolves_start [evolves_intros]:
  "evolves v w \<Longrightarrow> evolves v (start b w)"
  by (auto simp: start_def Let_def split_beta intro: evolves_intros)

lemma evolves_stop [evolves_intros]:
  "evolves v w \<Longrightarrow> evolves v (stop w)"
  by (auto simp: stop_def Let_def split: option.splits intro!: evolves_intros)

lemma evolves_trackKeystroke [evolves_intros]:
  "evolves v w \<Longrightarrow> evolves v (trackKeystroke c w)"
  by (auto simp: trackKeystroke_def Let_def)

lemma evolves_fold_trackKeystroke [evolves_intros]:
  "evolves v w \<Longrightarrow> evolves v (fold trackKeystroke cs w)"
  by (induction cs arbitrary: w) (auto intro: evolves_intros)

lemma evolves_notifyStateChange [evolves_intros]:
  "evolves v w \<Longrightarrow> evolves v (notifyStateChange s x w)"
  by (auto simp: notifyStateChange_def)

lemma evolves_resetInactivityTimer [evolves_intros]:
  "evolves v w \<Longrightarrow> evolves v (resetInactivityTimer w)"
  by (auto simp: resetInactivityTimer_def Let_def split_beta split: option.splits
      intro!: evolves_intros)

lemma evolves_activateVelocityTracker [evolves_intros]:
  "evolves v w \<Longrightarrow> evolves v (activateVelocityTracker w)"
  by (auto simp: activateVelocityTracker_def Let_def split_beta intro!: evolves_intros)

lemma evolves_handleAssess [evolves_intros]:
  "evolves v w \<Longrightarrow> evolves v (handleAssess t w)"
  by (auto simp: handleAssess_def Let_def intro!: evolves_intros)

lemma evolves_executeAssessment [evolves_intros]:
  "evolves v w \<Longrightarrow> evolves v (executeAssessment t w)"
  by (auto simp: executeAssessment_def Let_def intro!: evolves_intros)

lemma evolves_forceTrigger [evolves_intros]:
  "evolves v w \<Longrightarrow> evolves v (forceTrigger w)"
  by (auto simp: forceTrigger_def Let_def intro!: evolves_intros)

lemma evolves_startCountdown [evolves_intros]:
  "evolves v w \<Longrightarrow> evolves v (startCountdown w)"
  by (auto simp: startCountdown_def Let_def split_beta intro!: evolves_intros)

lemma evolves_onStateChange [evolves_intros]:
  "evolves v w \<Longrightarrow> evolves v (onStateChange s w)"
  by (auto simp: onStateChange_def Let_def intro!: evolves_intros)

lemma evolves_sampleVelocity [evolves_intros]:
  "evolves v w \<Longrightarrow> evolves v (sampleVelocity w)"
  by (auto simp: sampleVelocity_def Let_def intro!: evolves_intros)

lemma evolves_countdownExpired [evolves_intros]:
  "evolves v w \<Longrightarrow> evolves v (countdownExpired lc w)"
  by (auto simp: countdownExpired_def Let_def intro!: evolves_intros)

lemma evolves_inactivityExpired [evolves_intros]:
  "evolves v w \<Longrightarrow> evolves v (inactivityExpired w)"
  by (auto simp: inactivityExpired_def Let_def split: option.splits intro!: evolves_intros)

lemma evolves_runCallback [evolves_intros]:
  "evolves v w \<Longrightarrow> evolves v (runCallback lc cb w)"
  by (cases cb) (auto intro!: evolves_intros)

lemma evolves_reschedule:
  "evolves v w \<Longrightarrow> evolves v (w\<lparr> timers := map (\<lambda>u. if handle u = h then u\<lparr> due := x \<rparr> else u) (timers w) \<rparr>)"
proof -
  have "map handle (map (\<lambda>u. if handle u = h then u\<lparr> due := x \<rparr> else u) ts) = map handle ts" for ts
    by (induction ts) auto
  then have "handle ` set (map (\<lambda>u. if handle u = h then u\<lparr> due := x \<rparr> else u) (timers w))
      = handle ` set (timers w)"
    by (metis set_map)
  then show "evolves v w \<Longrightarrow> ?thesis" by (simp add: evolves_def pending_def)
qed

lemma evolves_fire [evolves_intros]:
  "evolves v w \<Longrightarrow> evolves v (fire lc h w)"
  by (auto simp: fire_def pendingTimer_def Let_def split: option.splits
      intro!: evolves_reschedule evolves_intros)

lemma evolves_observeText [evolves_intros]:
  "evolves v w \<Longrightarrow> evolves v (observeText t w)"
  by (auto simp: observeText_def Let_def intro!: evolves_intros)

lemma evolves_step: "evolves w (step lc e w)"
  by (cases e) (auto simp: setComposing_def handleKeyboardShortcut_def
      intro!: evolves_intros evolves_refl)

lemma evolves_exec: "evolves w (exec lc es w)"
proof (induction es arbitrary: w)
  case Nil
  then show ?case by (simp add: exec_def evolves_refl)
next
  case (Cons e es)
  show ?case
    using evolves_trans[OF evolves_step[of w lc e] Cons[of "step lc e w"]]
    by (simp add: exec_def)
qed

lemma handles_ok_evolves: "handles_ok w \<Longrightarrow> evolves w w' \<Longrightarrow> handles_ok w'"
  unfolding handles_ok_def evolves_def by (meson less_le_trans)

lemma handles_ok_init: "handles_ok (init t0)"
  by (simp add: handles_ok_def init_def pending_def)

lemma reachable_handles_ok: "reachable lc w \<Longrightarrow> handles_ok w"
  by (induction rule: reachable.induct)
    (auto intro: handles_ok_init handles_ok_evolves evolves_step)

section \<open>What each operation leaves unchanged\<close>

lemma setTimeout_frame [simp]:
  "fst (setTimeout cb d w) = nextHandle w"
  "now (snd (setTimeout cb d w)) = now w"
  "tracker (snd (setTimeout cb d w)) = tracker w"
  "triggered (snd (setTimeout cb d w)) = triggered w"
  "feedback (snd (setTimeout cb d w)) = feedback w"
  "promptTextRef (snd (setTimeout cb d w)) = promptTextRef w"
  "isTrackerActiveRef (snd (setTimeout cb d w)) = isTrackerActiveRef w"
  "inactivityTimerRef (snd (setTimeout cb d w)) = inactivityTimerRef w"
  "velocityPollTimerRef (snd (setTimeout cb d w)) = velocityPollTimerRef w"
  by (simp_all add: setTimeout_def)

lemma setInterval_frame [simp]:
  "fst (setInterval cb d w) = nextHandle w"
  "now (snd (setInterval cb d w)) = now w"
  "tracker (snd (setInterval cb d w)) = tracker w"
  "triggered (snd (setInterval cb d w)) = triggered w"
  "feedback (snd (setInterval cb d w)) = feedback w"
  "promptTextRef (snd (setInterval cb d w)) = promptTextRef w"
  "isTrackerActiveRef (snd (setInterval cb d w)) = isTrackerActiveRef w"
  "inactivityTimerRef (snd (setInterval cb d w)) = inactivityTimerRef w"
  "velocityPollTimerRef (snd (setInterval cb d w)) = velocityPollTimerRef w"
  by (simp_all add: setInterval_def)

lemma clearTimeout_frame [simp]:
  "now (clearTimeout h w) = now w"
  "tracker (clearTimeout h w) = tracker w"
  "triggered (clearTimeout h w) = triggered w"
  "feedback (clearTimeout h w) = feedback w"
  "promptTextRef (clearTimeout h w) = promptTextRef w"
  "isTrackerActiveRef (clearTimeout h w) = isTrackerActiveRef w"
  "inactivityTimerRef (clearTimeout h w) = inactivityTimerRef w"
  "velocityPollTimerRef (clearTimeout h w) = velocityPollTimerRef w"
  "nextHandle (clearTimeout h w) = nextHandle w"
  by (simp_all add: clearTimeout_def)

lemma notifyStateChange_frame [simp]:
  "now (notifyStateChange s x w) = now w"
  "tracker (notifyStateChange s x w) = tracker w"
  "triggered (notifyStateChange s x w) = triggered w"
  "timers (notifyStateChange s x w) = timers w"
  "nextHandle (notifyStateChange s x w) = nextHandle w"
  "promptTextRef (notifyStateChange s x w) = promptTextRef w"
  "isTrackerActiveRef (notifyStateChange s x w) = isTrackerActiveRef w"
  "inactivityTimerRef (notifyStateChange s x w) = inactivityTimerRef w"
  "velocityPollTimerRef (notifyStateChange s x w) = velocityPollTimerRef w"
  by (simp_all add: notifyStateChange_def)

lemma cancelCountdown_frame [simp]:
  "now (cancelCountdown w) = now w"
  "triggered (cancelCountdown w) = triggered w"
  "feedback (cancelCountdown w) = feedback w"
  "promptTextRef (cancelCountdown w) = promptTextRef w"
  "isTrackerActiveRef (cancelCountdown w) = isTrackerActiveRef w"
  "inactivityTimerRef (cancelCountdown w) = inactivityTimerRef w"
  "velocityPollTimerRef (cancelCountdown w) = velocityPollTimerRef w"
  "nextHandle (cancelCountdown w) = nextHandle w"
  "tracker (cancelCountdown w) = (tracker w)\<lparr> countdownTimer :=
      (if truthy (countdownTimer (tracker w)) then None else countdownTimer (tracker w)) \<rparr>"
  by (simp_all add: cancelCountdown_def truthy_def split: option.splits)

lemma start_frame [simp]:
  "now (start b w) = now w"
  "triggered (start b w) = triggered w"
  "feedback (start b w) = feedback w"
  "promptTextRef (start b w) = promptTextRef w"
  "isTrackerActiveRef (start b w) = isTrackerActiveRef w"
  "inactivityTimerRef (start b w) = inactivityTimerRef w"
  "velocityPollTimerRef (start b w) = velocityPollTimerRef w"
  "tracker (start b w) = (tracker w)\<lparr> getCurrentText := True, triggerCallback := True,
      stateChangeCallback := b, sampleTimer := Some (nextHandle w) \<rparr>"
  by (simp_all add: start_def Let_def split_beta)

lemma stop_frame [simp]:
  "now (stop w) = now w"
  "triggered (stop w) = triggered w"
  "feedback (stop w) = feedback w"
  "promptTextRef (stop w) = promptTextRef w"
  "isTrackerActiveRef (stop w) = isTrackerActiveRef w"
  "inactivityTimerRef (stop w) = inactivityTimerRef w"
  "velocityPollTimerRef (stop w) = velocityPollTimerRef w"
  "nextHandle (stop w) = nextHandle w"
  "tracker (stop w) = (tracker w)\<lparr>
      sampleTimer := (if truthy (sampleTimer (tracker w)) then None else sampleTimer (tracker w)),
      countdownTimer := (if truthy (countdownTimer (tracker w)) then None
                         else countdownTimer (tracker w)) \<rparr>"
  by (simp_all add: stop_def Let_def truthy_def split: option.splits)

lemma trackKeystroke_frame [simp]:
  "now (trackKeystroke c w) = now w"
  "triggered (trackKeystroke c w) = triggered w"
  "feedback (trackKeystroke c w) = feedback w"
  "timers (trackKeystroke c w) = timers w"
  "nextHandle (trackKeystroke c w) = nextHandle w"
  "promptTextRef (trackKeystroke c w) = promptTextRef w"
  "isTrackerActiveRef (trackKeystroke c w) = isTrackerActiveRef w"
  "inactivityTimerRef (trackKeystroke c w) = inactivityTimerRef w"
  "velocityPollTimerRef (trackKeystroke c w) = velocityPollTimerRef w"
  "config (tracker (trackKeystroke c w)) = config (tracker w)"
  "currentState (tracker (trackKeystroke c w)) = currentState (tracker w)"
  "previousState (tracker (trackKeystroke c w)) = previousState (tracker w)"
  "countdownTimer (tracker (trackKeystroke c w)) = countdownTimer (tracker w)"
  "sampleTimer (tracker (trackKeystroke c w)) = sampleTimer (tracker w)"
  "isComposing (tracker (trackKeystroke c w)) = isComposing (tracker w)"
  "lastAssessedText (tracker (trackKeystroke c w)) = lastAssessedText (tracker w)"
  "lastAssessmentTime (tracker (trackKeystroke c w)) = lastAssessmentTime (tracker w)"
  "triggerCallback (tracker (trackKeystroke c w)) = triggerCallback (tracker w)"
  "stateChangeCallback (tracker (trackKeystroke c w)) = stateChangeCallback (tracker w)"
  "getCurrentText (tracker (trackKeystroke c w)) = getCurrentText (tracker w)"
  by (simp_all add: trackKeystroke_def Let_def)

lemma fold_trackKeystroke_frame [simp]:
  "now (fold trackKeystroke cs w) = now w"
  "triggered (fold trackKeystroke cs w) = triggered w"
  "feedback (fold trackKeystroke cs w) = feedback w"
  "timers (fold trackKeystroke cs w) = timers w"
  "nextHandle (fold trackKeystroke cs w) = nextHandle w"
  "promptTextRef (fold trackKeystroke cs w) = promptTextRef w"
  "isTrackerActiveRef (fold trackKeystroke cs w) = isTrackerActiveRef w"
  "inactivityTimerRef (fold trackKeystroke cs w) = inactivityTimerRef w"
  "velocityPollTimerRef (fold trackKeystroke cs w) = velocityPollTimerRef w"
  "config (tracker (fold trackKeystroke cs w)) = config (tracker w)"
  "currentState (tracker (fold trackKeystroke cs w)) = currentState (tracker w)"
  "previousState (tracker (fold trackKeystroke cs w)) = previousState (tracker w)"
  "countdownTimer (tracker (fold trackKeystroke cs w)) = countdownTimer (tracker w)"
  "sampleTimer (tracker (fold trackKeystroke cs w)) = sampleTimer (tracker w)"
  "isComposing (tracker (fold trackKeystroke cs w)) = isComposing (tracker w)"
  "lastAssessedText (tracker (fold trackKeystroke cs w)) = lastAssessedText (tracker w)"
  "lastAssessmentTime (tracker (fold trackKeystroke cs w)) = lastAssessmentTime (tracker w)"
  "triggerCallback (tracker (fold trackKeystroke cs w)) = triggerCallback (tracker w)"
  "stateChangeCallback (tracker (fold trackKeystroke cs w)) = stateChangeCallback (tracker w)"
  "getCurrentText (tracker (fold trackKeystroke cs w)) = getCurrentText (tracker w)"
  by (induction cs arbitrary: w) simp_all

lemma resetInactivityTimer_frame [simp]:
  "now (resetInactivityTimer w) = now w"
  "tracker (resetInactivityTimer w) = tracker w"
  "triggered (resetInactivityTimer w) = triggered w"
  "feedback (resetInactivityTimer w) = feedback w"
  "promptTextRef (resetInactivityTimer w) = promptTextRef w"
  "isTrackerActiveRef (resetInactivityTimer w) = isTrackerActiveRef w"
  "velocityPollTimerRef (resetInactivityTimer w) = velocityPollTimerRef w"
  "nextHandle (resetInactivityTimer w) = nextHandle w + 1"
  "inactivityTimerRef (resetInactivityTimer w) = Some (nextHandle w)"
  by (simp_all add: resetInactivityTimer_def Let_def split_beta setTimeout_def
      split: option.splits)

lemma activateVelocityTracker_frame [simp]:
  "now (activateVelocityTracker w) = now w"
  "triggered (activateVelocityTracker w) = triggered w"
  "feedback (activateVelocityTracker w) = feedback w"
  "promptTextRef (activateVelocityTracker w) = promptTextRef w"
  "isTrackerActiveRef (activateVelocityTracker w) = True"
  "tracker (activateVelocityTracker w) =
     (if isTrackerActiveRef w then tracker w
      else (tracker w)\<lparr> getCurrentText := True, triggerCallback := True,
             stateChangeCallback := False, sampleTimer := Some (nextHandle w) \<rparr>)"
  by (simp_all add: activateVelocityTracker_def Let_def split_beta)

lemma handleAssess_frame [simp]:
  "now (handleAssess t w) = now w"
  "triggered (handleAssess t w) = triggered w"
  "feedback (handleAssess t w) = feedback w"
  "promptTextRef (handleAssess t w) = promptTextRef w"
  "config (tracker (handleAssess t w)) = config (tracker w)"
  "charTimestamps (tracker (handleAssess t w)) = charTimestamps (tracker w)"
  "currentState (tracker (handleAssess t w)) = currentState (tracker w)"
  "previousState (tracker (handleAssess t w)) = previousState (tracker w)"
  "countdownTimer (tracker (handleAssess t w)) = countdownTimer (tracker w)"
  "isComposing (tracker (handleAssess t w)) = isComposing (tracker w)"
  "lastAssessedText (tracker (handleAssess t w)) = lastAssessedText (tracker w)"
  "lastAssessmentTime (tracker (handleAssess t w)) = lastAssessmentTime (tracker w)"
  by (simp_all add: handleAssess_def Let_def)

lemma executeAssessment_frame [simp]:
  "now (executeAssessment t w) = now w"
  "feedback (executeAssessment t w) = feedback w"
  "promptTextRef (executeAssessment t w) = promptTextRef w"
  "config (tracker (executeAssessment t w)) = config (tracker w)"
  "charTimestamps (tracker (executeAssessment t w)) = charTimestamps (tracker w)"
  "currentState (tracker (executeAssessment t w)) = currentState (tracker w)"
  "previousState (tracker (executeAssessment t w)) = previousState (tracker w)"
  "countdownTimer (tracker (executeAssessment t w)) = countdownTimer (tracker w)"
  "isComposing (tracker (executeAssessment t w)) = isComposing (tracker w)"
  "lastAssessedText (tracker (executeAssessment t w)) = t"
  "lastAssessmentTime (tracker (executeAssessment t w)) = now w"
  "triggered (executeAssessment t w) =
     (if triggerCallback (tracker w) then triggered w @ [(now w, t)] else triggered w)"
  by (simp_all add: executeAssessment_def Let_def)

lemma forceTrigger_frame [simp]:
  "now (forceTrigger w) = now w"
  "feedback (forceTrigger w) = feedback w"
  "promptTextRef (forceTrigger w) = promptTextRef w"
  "config (tracker (forceTrigger w)) = config (tracker w)"
  "charTimestamps (tracker (forceTrigger w)) = charTimestamps (tracker w)"
  "currentState (tracker (forceTrigger w)) = currentState (tracker w)"
  by (simp_all add: forceTrigger_def Let_def)

lemma startCountdown_frame [simp]:
  "now (startCountdown w) = now w"
  "triggered (startCountdown w) = triggered w"
  "feedback (startCountdown w) = feedback w"
  "promptTextRef (startCountdown w) = promptTextRef w"
  "isTrackerActiveRef (startCountdown w) = isTrackerActiveRef w"
  "inactivityTimerRef (startCountdown w) = inactivityTimerRef w"
  "velocityPollTimerRef (startCountdown w) = velocityPollTimerRef w"
  "tracker (startCountdown w) =
     (if getCurrentText (tracker w)
      then (tracker w)\<lparr> countdownTimer := Some (nextHandle w + 1) \<rparr> else tracker w)"
  by (simp_all add: startCountdown_def Let_def split_beta setTimeout_def)

lemma onStateChange_frame [simp]:
  "now (onStateChange s w) = now w"
  "triggered (onStateChange s w) = triggered w"
  "promptTextRef (onStateChange s w) = promptTextRef w"
  "isTrackerActiveRef (onStateChange s w) = isTrackerActiveRef w"
  "inactivityTimerRef (onStateChange s w) = inactivityTimerRef w"
  "velocityPollTimerRef (onStateChange s w) = velocityPollTimerRef w"
  "config (tracker (onStateChange s w)) = config (tracker w)"
  "charTimestamps (tracker (onStateChange s w)) = charTimestamps (tracker w)"
  "currentState (tracker (onStateChange s w)) = s"
  "previousState (tracker (onStateChange s w)) = currentState (tracker w)"
  "isComposing (tracker (onStateChange s w)) = isComposing (tracker w)"
  "lastAssessedText (tracker (onStateChange s w)) = lastAssessedText (tracker w)"
  "lastAssessmentTime (tracker (onStateChange s w)) = lastAssessmentTime (tracker w)"
  "triggerCallback (tracker (onStateChange s w)) = triggerCallback (tracker w)"
  "stateChangeCallback (tracker (onStateChange s w)) = stateChangeCallback (tracker w)"
  "getCurrentText (tracker (onStateChange s w)) = getCurrentText (tracker w)"
  "sampleTimer (tracker (onStateChange s w)) = sampleTimer (tracker w)"
  by (simp_all add: onStateChange_def Let_def)

lemma sampleVelocity_frame [simp]:
  "now (sampleVelocity w) = now w"
  "triggered (sampleVelocity w) = triggered w"
  "promptTextRef (sampleVelocity w) = promptTextRef w"
  "isTrackerActiveRef (sampleVelocity w) = isTrackerActiveRef w"
  "inactivityTimerRef (sampleVelocity w) = inactivityTimerRef w"
  "velocityPollTimerRef (sampleVelocity w) = velocityPollTimerRef w"
  "config (tracker (sampleVelocity w)) = config (tracker w)"
  "charTimestamps (tracker (sampleVelocity w)) = charTimestamps (tracker w)"
  "isComposing (tracker (sampleVelocity w)) = isComposing (tracker w)"
  "lastAssessedText (tracker (sampleVelocity w)) = lastAssessedText (tracker w)"
  "lastAssessmentTime (tracker (sampleVelocity w)) = lastAssessmentTime (tracker w)"
  "triggerCallback (tracker (sampleVelocity w)) = triggerCallback (tracker w)"
  "stateChangeCallback (tracker (sampleVelocity w)) = stateChangeCallback (tracker w)"
  "getCurrentText (tracker (sampleVelocity w)) = getCurrentText (tracker w)"
  "sampleTimer (tracker (sampleVelocity w)) = sampleTimer (tracker w)"
  by (simp_all add: sampleVelocity_def Let_def)

lemma inactivityExpired_frame [simp]:
  "now (inactivityExpired w) = now w"
  "triggered (inactivityExpired w) = triggered w"
  "feedback (inactivityExpired w) = feedback w"
  "promptTextRef (inactivityExpired w) = promptTextRef w"
  "isTrackerActiveRef (inactivityExpired w) = False"
  "inactivityTimerRef (inactivityExpired w) = inactivityTimerRef w"
  "nextHandle (inactivityExpired w) = nextHandle w"
  "config (tracker (inactivityExpired w)) = config (tracker w)"
  "charTimestamps (tracker (inactivityExpired w)) = charTimestamps (tracker w)"
  "currentState (tracker (inactivityExpired w)) = currentState (tracker w)"
  "isComposing (tracker (inactivityExpired w)) = isComposing (tracker w)"
  "lastAssessedText (tracker (inactivityExpired w)) = lastAssessedText (tracker w)"
  "lastAssessmentTime (tracker (inactivityExpired w)) = lastAssessmentTime (tracker w)"
  "triggerCallback (tracker (inactivityExpired w)) = triggerCallback (tracker w)"
  "getCurrentText (tracker (inactivityExpired w)) = getCurrentText (tracker w)"
  by (simp_all add: inactivityExpired_def Let_def split: option.splits)

lemma countdownExpired_frame [simp]:
  "now (countdownExpired lc w) = now w"
  "promptTextRef (countdownExpired lc w) = promptTextRef w"
  "config (tracker (countdownExpired lc w)) = config (tracker w)"
  "charTimestamps (tracker (countdownExpired lc w)) = charTimestamps (tracker w)"
  "currentState (tracker (countdownExpired lc w)) = currentState (tracker w)"
  by (simp_all add: countdownExpired_def Let_def)

lemma runCallback_frame [simp]:
  "now (runCallback lc cb w) = now w"
  "promptTextRef (runCallback lc cb w) = promptTextRef w"
  "config (tracker (runCallback lc cb w)) = config (tracker w)"
  "charTimestamps (tracker (runCallback lc cb w)) = charTimestamps (tracker w)"
  by (cases cb; simp)+

lemma fire_frame [simp]:
  "now (fire lc h w) = now w"
  "promptTextRef (fire lc h w) = promptTextRef w"
  "config (tracker (fire lc h w)) = config (tracker w)"
  "charTimestamps (tracker (fire lc h w)) = charTimestamps (tracker w)"
  by (simp_all add: fire_def pendingTimer_def Let_def split: option.splits)

lemma observeText_frame [simp]:
  "now (observeText t w) = now w"
  "triggered (observeText t w) = triggered w"
  "feedback (observeText t w) = feedback w"
  "promptTextRef (observeText t w) = t"
  "config (tracker (observeText t w)) = config (tracker w)"
  "currentState (tracker (observeText t w)) = currentState (tracker w)"
  "lastAssessedText (tracker (observeText t w)) = lastAssessedText (tracker w)"
  "lastAssessmentTime (tracker (observeText t w)) = lastAssessmentTime (tracker w)"
  "triggerCallback (tracker (observeText t w)) = triggerCallback (tracker w)"
  "getCurrentText (tracker (observeText t w)) = getCurrentText (tracker w)"
  by (simp_all add: observeText_def Let_def)

lemma step_config [simp]: "config (tracker (step lc e w)) = config (tracker w)"
  by (cases e) (simp_all add: setComposing_def handleKeyboardShortcut_def)

lemma reachable_config: "reachable lc w \<Longrightarrow> config (tracker w) = DEFAULT_CONFIG"
  by (induction rule: reachable.induct) (simp_all add: init_def newTracker_def)

section \<open>Invariants of the reachable states\<close>



lemma times_ok_executeAssessment:
  "times_ok w \<Longrightarrow> times_ok (executeAssessment t w)"
  unfolding times_ok_def by (auto dest: order_trans)

lemma times_ok_runCallback: "times_ok w \<Longrightarrow> times_ok (runCallback lc cb w)"
proof (cases cb)
  case (CountdownExpiry m)
  assume "times_ok w"
  then have "times_ok (countdownExpired lc w)"
    using times_ok_executeAssessment[of "notifyStateChange (currentState (tracker w)) 1 w"]
    by (simp add: countdownExpired_def Let_def times_ok_def)
  then show ?thesis using CountdownExpiry by (simp add: times_ok_def)
qed (auto simp: times_ok_def)

lemma times_ok_step: "times_ok w \<Longrightarrow> times_ok (step lc e w)"
proof (cases e)
  case (Elapse d)
  assume "times_ok w"
  then show ?thesis using Elapse by (auto simp: times_ok_def max_def)
next
  case (Fire h)
  assume "times_ok w"
  then show ?thesis
    using Fire times_ok_runCallback[of w lc]
    by (auto simp: fire_def pendingTimer_def Let_def times_ok_def split: option.splits)
next
  case Shortcut
  assume "times_ok w"
  then show ?thesis
    using Shortcut times_ok_executeAssessment[of "cancelCountdown w" "promptTextRef w"]
    by (simp add: handleKeyboardShortcut_def forceTrigger_def Let_def times_ok_def)
qed (auto simp: times_ok_def setComposing_def)

lemma reachable_times_ok: "reachable lc w \<Longrightarrow> times_ok w"
  by (induction rule: reachable.induct)
    (auto simp: times_ok_step, simp add: times_ok_def init_def newTracker_def)

section \<open>Eligibility Gate\<close>

lemma calculateChangePercent_first: "calculateChangePercent text [] = 1"
  by (simp add: calculateChangePercent_def)

lemma countdownExpired_triggered:
  "triggered (countdownExpired lc w) =
     (if currentState (tracker w) = STOPPED \<and> getCurrentText (tracker w) \<and>
         triggerCallback (tracker w) \<and> passesPreFilters lc w (promptTextRef w)
      then triggered w @ [(now w, promptTextRef w)] else triggered w)"
  by (simp add: countdownExpired_def Let_def)

text \<open>
  Claim C1. With the default configuration, the gate accepts a candidate text exactly when
  (1) its length is at least 15, (2) at least 30000 ms have passed since the last assessment,
  (3) its change distance from the last assessed text is at least 0.2, which always holds
  when no text was assessed before, and (4) its lower-cased, trimmed form is not one of the
  denylisted phrases. The checks run in this order and the first that fails is the reason
  logged. At countdown expiry in STOPPED, the text is forwarded exactly when the gate accepts.
\<close>

theorem eligibility_gate_four_checks_in_order:
  assumes "config (tracker w) = DEFAULT_CONFIG"
  shows "(passesPreFilters lc w text \<longleftrightarrow>
            15 \<le> length text \<and>
            30000 \<le> now w - lastAssessmentTime (tracker w) \<and>
            1 / 5 \<le> calculateChangePercent text (lastAssessedText (tracker w)) \<and>
            trim (lc text) \<notin> set THROWAWAY_PHRASES) \<and>
         (lastAssessedText (tracker w) = [] \<longrightarrow>
            1 / 5 \<le> calculateChangePercent text (lastAssessedText (tracker w))) \<and>
         preFilterFailure lc w text =
           (if length text < 15 then Some TooShort
            else if now w - lastAssessmentTime (tracker w) < 30000 then Some CooldownActive
            else if calculateChangePercent text (lastAssessedText (tracker w)) < 1 / 5
                 then Some InsufficientChange
            else if trim (lc text) \<in> set THROWAWAY_PHRASES then Some ThrowawayPhrase
            else None) \<and>
         (currentState (tracker w) = STOPPED \<and> getCurrentText (tracker w) \<and>
          triggerCallback (tracker w) \<longrightarrow>
            triggered (countdownExpired lc w) =
              (if passesPreFilters lc w (promptTextRef w)
               then triggered w @ [(now w, promptTextRef w)] else triggered w))"
proof -
  have reason: "preFilterFailure lc w text =
           (if length text < 15 then Some TooShort
            else if now w - lastAssessmentTime (tracker w) < 30000 then Some CooldownActive
            else if calculateChangePercent text (lastAssessedText (tracker w)) < 1 / 5
                 then Some InsufficientChange
            else if trim (lc text) \<in> set THROWAWAY_PHRASES then Some ThrowawayPhrase
            else None)"
    using assms by (simp add: preFilterFailure_def Let_def DEFAULT_CONFIG_def)
  have iff: "passesPreFilters lc w text \<longleftrightarrow>
            15 \<le> length text \<and>
            30000 \<le> now w - lastAssessmentTime (tracker w) \<and>
            1 / 5 \<le> calculateChangePercent text (lastAssessedText (tracker w)) \<and>
            trim (lc text) \<notin> set THROWAWAY_PHRASES"
    unfolding passesPreFilters_def reason by (auto simp: not_less)
  have first: "lastAssessedText (tracker w) = [] \<longrightarrow>
            1 / 5 \<le> calculateChangePercent text (lastAssessedText (tracker w))"
    by (simp add: calculateChangePercent_first)
  have expiry: "currentState (tracker w) = STOPPED \<and> getCurrentText (tracker w) \<and>
          triggerCallback (tracker w) \<longrightarrow>
            triggered (countdownExpired lc w) =
              (if passesPreFilters lc w (promptTextRef w)
               then triggered w @ [(now w, promptTextRef w)] else triggered w)"
    by (simp add: countdownExpired_triggered)
  show ?thesis using reason iff first expiry by blast
qed

lemma activated_facts:
  "config (tracker activated) = DEFAULT_CONFIG"
  "lastAssessedText (tracker activated) = []"
  "currentState (tracker activated) = STOPPED"
  "getCurrentText (tracker activated)"
  "triggerCallback (tracker activated)"
  "promptTextRef activated = draft"
  "now activated = 1000000"
  "triggered activated = []"
  by code_simp+

lemma draft_passes: "passesPreFilters toLowerLatin activated draft"
  by code_simp

text \<open>
  The theorem at the state after activation, where no text was assessed before: the draft of
  19 characters is accepted and forwarded at countdown expiry.
\<close>

theorem eligibility_gate_four_checks_in_order_witness:
  "config (tracker activated) = DEFAULT_CONFIG \<and>
   lastAssessedText (tracker activated) = [] \<and>
   currentState (tracker activated) = STOPPED \<and> getCurrentText (tracker activated) \<and>
   triggerCallback (tracker activated) \<and>
   passesPreFilters toLowerLatin activated draft \<and>
   preFilterFailure toLowerLatin activated draft = None \<and>
   1 / 5 \<le> calculateChangePercent draft (lastAssessedText (tracker activated)) \<and>
   triggered (countdownExpired toLowerLatin activated) = [(1000000, draft)]"
  using eligibility_gate_four_checks_in_order[OF activated_facts(1), of toLowerLatin draft]
    activated_facts draft_passes
  by (simp add: passesPreFilters_def)

section \<open>Countdown Scheduler: the duration of the countdown\<close>

lemma endsWithPunctuation_last:
  "endsWithPunctuation text \<longleftrightarrow> trim text \<noteq> [] \<and> [last (trim text)] \<in> set PUNCTUATION"
  by (simp add: endsWithPunctuation_def Let_def last_conv_nth)

lemma find_append_absent: "\<forall>t \<in> set xs. \<not> P t \<Longrightarrow> find P (xs @ ys) = find P ys"
  by (induction xs) auto

lemma passesPreFilters_cong:
  "now v = now w \<Longrightarrow> config (tracker v) = config (tracker w) \<Longrightarrow>
   lastAssessedText (tracker v) = lastAssessedText (tracker w) \<Longrightarrow>
   lastAssessmentTime (tracker v) = lastAssessmentTime (tracker w) \<Longrightarrow>
   passesPreFilters lc v text = passesPreFilters lc w text"
  by (simp add: passesPreFilters_def preFilterFailure_def Let_def)

lemma startCountdown_timers:
  "getCurrentText (tracker w) \<Longrightarrow>
   timers (startCountdown w) = timers w @
     [\<lparr> handle = nextHandle w, due = now w + 3000, action = Midpoint, period = None \<rparr>,
      \<lparr> handle = nextHandle w + 1,
         due = now w + waitTime (config (tracker w)) (promptTextRef w),
         action = CountdownExpiry (nextHandle w), period = None \<rparr>]"
  by (simp add: startCountdown_def Let_def split_beta setTimeout_def)

lemma find_armed_countdown:
  assumes "getCurrentText (tracker w)" "handles_ok w"
  shows "find (\<lambda>t. handle t = nextHandle w + 1) (timers (startCountdown w)) =
     Some \<lparr> handle = nextHandle w + 1,
            due = now w + waitTime (config (tracker w)) (promptTextRef w),
            action = CountdownExpiry (nextHandle w), period = None \<rparr>"
proof -
  have "\<forall>t \<in> set (timers w). \<not> handle t = nextHandle w + 1"
    using assms(2) by (fastforce simp: handles_ok_def pending_def)
  then show ?thesis
    using assms(1) by (simp add: startCountdown_timers find_append_absent)
qed

text \<open>
  Claim C3, as stated: the countdown is 6000 ms when the text ends with a sentence-terminal
  mark and 8000 ms otherwise. The text \<open>"Done. "\<close> ends with a space, not with a mark, and its
  countdown is 6000 ms: the tracker looks at the last character of the trimmed text.
\<close>

theorem countdown_duration_counterexample:
  "\<not> (ascii ''Done. '' \<noteq> [] \<and> [last (ascii ''Done. '')] \<in> set PUNCTUATION) \<and>
   waitTime DEFAULT_CONFIG (ascii ''Done. '') = 6000"
  by code_simp

text \<open>
  Claim C3, amended. The countdown duration is chosen at arming time from the text then
  present alone: 6000 ms if the text, trimmed of surrounding white space, ends with one of the
  six marks, 8000 ms otherwise. Arming schedules the countdown callback that long after the
  present time; the callback cannot run earlier, and when it runs at that time in state
  STOPPED with a text the gate accepts, the text is forwarded.
\<close>

theorem countdown_duration_from_trimmed_text:
  assumes "config (tracker w) = DEFAULT_CONFIG" "getCurrentText (tracker w)" "handles_ok w"
  shows "waitTime (config (tracker w)) (promptTextRef w) =
           (if trim (promptTextRef w) \<noteq> [] \<and> [last (trim (promptTextRef w))] \<in> set PUNCTUATION
            then 6000 else 8000) \<and>
         countdownTimer (tracker (startCountdown w)) = Some (nextHandle w + 1) \<and>
         timers (startCountdown w) = timers w @
           [\<lparr> handle = nextHandle w, due = now w + 3000, action = Midpoint, period = None \<rparr>,
            \<lparr> handle = nextHandle w + 1,
               due = now w + waitTime (config (tracker w)) (promptTextRef w),
               action = CountdownExpiry (nextHandle w), period = None \<rparr>] \<and>
         (\<forall>d. int d < waitTime (config (tracker w)) (promptTextRef w) \<longrightarrow>
            fire lc (nextHandle w + 1) ((startCountdown w)\<lparr> now := now w + int d \<rparr>) =
              (startCountdown w)\<lparr> now := now w + int d \<rparr>) \<and>
         (currentState (tracker w) = STOPPED \<and> triggerCallback (tracker w) \<and>
          passesPreFilters lc
            (w\<lparr> now := now w + waitTime (config (tracker w)) (promptTextRef w) \<rparr>)
            (promptTextRef w) \<longrightarrow>
            triggered (fire lc (nextHandle w + 1)
              ((startCountdown w)\<lparr> now := now w + waitTime (config (tracker w)) (promptTextRef w) \<rparr>)) =
              triggered w @ [(now w + waitTime (config (tracker w)) (promptTextRef w), promptTextRef w)])"
proof -
  let ?wait = "waitTime (config (tracker w)) (promptTextRef w)"
  let ?h = "nextHandle w + 1"
  let ?w' = "startCountdown w"
  have wait: "?wait = (if trim (promptTextRef w) \<noteq> [] \<and>
       [last (trim (promptTextRef w))] \<in> set PUNCTUATION then 6000 else 8000)"
    using assms(1) by (simp add: waitTime_def endsWithPunctuation_last DEFAULT_CONFIG_def)
  have handle: "countdownTimer (tracker ?w') = Some ?h"
    using assms(2) by simp
  have tm: "timers ?w' = timers w @
           [\<lparr> handle = nextHandle w, due = now w + 3000, action = Midpoint, period = None \<rparr>,
            \<lparr> handle = ?h, due = now w + ?wait,
               action = CountdownExpiry (nextHandle w), period = None \<rparr>]"
    using assms(2) by (rule startCountdown_timers)
  have found: "find (\<lambda>t. handle t = Suc (nextHandle w)) (timers ?w') =
     Some \<lparr> handle = Suc (nextHandle w), due = now w + ?wait,
            action = CountdownExpiry (nextHandle w), period = None \<rparr>"
    using find_armed_countdown[OF assms(2,3)] by simp
  have early: "\<forall>d. int d < ?wait \<longrightarrow>
      fire lc ?h (?w'\<lparr> now := now w + int d \<rparr>) = ?w'\<lparr> now := now w + int d \<rparr>"
    by (simp add: fire_def pendingTimer_def found)
  have ontime: "currentState (tracker w) = STOPPED \<and> triggerCallback (tracker w) \<and>
      passesPreFilters lc (w\<lparr> now := now w + ?wait \<rparr>) (promptTextRef w) \<longrightarrow>
      triggered (fire lc ?h (?w'\<lparr> now := now w + ?wait \<rparr>)) =
        triggered w @ [(now w + ?wait, promptTextRef w)]"
  proof
    assume a: "currentState (tracker w) = STOPPED \<and> triggerCallback (tracker w) \<and>
      passesPreFilters lc (w\<lparr> now := now w + ?wait \<rparr>) (promptTextRef w)"
    have "passesPreFilters lc (?w'\<lparr> now := now w + ?wait \<rparr>) (promptTextRef w) =
        passesPreFilters lc (w\<lparr> now := now w + ?wait \<rparr>) (promptTextRef w)"
      using assms(2) by (intro passesPreFilters_cong) simp_all
    then show "triggered (fire lc ?h (?w'\<lparr> now := now w + ?wait \<rparr>)) =
        triggered w @ [(now w + ?wait, promptTextRef w)]"
      using a assms(2) by (simp add: fire_def pendingTimer_def found countdownExpired_triggered)
  qed
  show ?thesis using wait handle tm early ontime by blast
qed

lemma reachable_exec: "reachable lc w \<Longrightarrow> reachable lc (exec lc es w)"
proof (induction es arbitrary: w)
  case Nil
  then show ?case by (simp add: exec_def)
next
  case (Cons e es)
  show ?case using Cons.IH[OF reachable_step[OF Cons.prems, of e]] by (simp add: exec_def)
qed

lemma reachable_activated: "reachable toLowerLatin activated"
  unfolding activated_def by (rule reachable_exec) (simp add: reachable_init)

lemma waitTime_examples:
  "waitTime DEFAULT_CONFIG (ascii ''Is this right?'') = 6000"
  "waitTime DEFAULT_CONFIG [0x4F60, 0x597D, 0xFF1F] = 6000"
  "waitTime DEFAULT_CONFIG (ascii ''Is this right'') = 8000"
  "waitTime DEFAULT_CONFIG draft = 8000"
  by code_simp+

text \<open>
  The theorem at the state after activation: the draft has no terminal mark, the countdown
  callback does nothing 7999 ms after arming and forwards the draft 8000 ms after arming.
\<close>

theorem countdown_duration_from_trimmed_text_witness:
  "config (tracker activated) = DEFAULT_CONFIG \<and> getCurrentText (tracker activated) \<and>
   handles_ok activated \<and>
   waitTime (config (tracker activated)) (promptTextRef activated) = 8000 \<and>
   fire toLowerLatin (nextHandle activated + 1)
     ((startCountdown activated)\<lparr> now := now activated + 7999 \<rparr>) =
     (startCountdown activated)\<lparr> now := now activated + 7999 \<rparr> \<and>
   currentState (tracker activated) = STOPPED \<and> triggerCallback (tracker activated) \<and>
   passesPreFilters toLowerLatin (activated\<lparr> now := now activated + 8000 \<rparr>) draft \<and>
   triggered (fire toLowerLatin (nextHandle activated + 1)
     ((startCountdown activated)\<lparr> now := now activated + 8000 \<rparr>)) = [(1008000, draft)]"
proof -
  have h: "handles_ok activated"
    using reachable_handles_ok[OF reachable_activated] .
  have wt: "waitTime (config (tracker activated)) (promptTextRef activated) = 8000"
    by (simp add: activated_facts waitTime_examples)
  have p: "passesPreFilters toLowerLatin (activated\<lparr> now := now activated + 8000 \<rparr>) draft"
    by code_simp
  note t = countdown_duration_from_trimmed_text[OF activated_facts(1) activated_facts(4) h,
      of toLowerLatin]
  have early: "fire toLowerLatin (nextHandle activated + 1)
     ((startCountdown activated)\<lparr> now := now activated + int 7999 \<rparr>) =
     (startCountdown activated)\<lparr> now := now activated + int 7999 \<rparr>"
  proof -
    have "int 7999 < waitTime (config (tracker activated)) (promptTextRef activated)"
      using wt by simp
    moreover have "\<forall>d. int d < waitTime (config (tracker activated)) (promptTextRef activated) \<longrightarrow>
        fire toLowerLatin (nextHandle activated + 1)
          ((startCountdown activated)\<lparr> now := now activated + int d \<rparr>) =
          (startCountdown activated)\<lparr> now := now activated + int d \<rparr>"
      using t by blast
    ultimately show ?thesis by blast
  qed
  have fired: "triggered (fire toLowerLatin (nextHandle activated + 1)
     ((startCountdown activated)\<lparr> now := now activated + 8000 \<rparr>)) = [(1008000, draft)]"
    using t[unfolded activated_facts(1) activated_facts(6) activated_facts(7) waitTime_examples(4)]
      p activated_facts
    by simp
  show ?thesis using h wt p early fired activated_facts by simp
qed

section \<open>The manual fast path\<close>

text \<open>None of the operations on the manual path adds a countdown timer.\<close>

lemma activeCountdowns_fields [simp]:
  "activeCountdowns (w\<lparr> now := a \<rparr>) = activeCountdowns w"
  "activeCountdowns (w\<lparr> tracker := b \<rparr>) = activeCountdowns w"
  "activeCountdowns (w\<lparr> isTrackerActiveRef := e \<rparr>) = activeCountdowns w"
  "activeCountdowns (w\<lparr> inactivityTimerRef := f \<rparr>) = activeCountdowns w"
  "activeCountdowns (w\<lparr> velocityPollTimerRef := g \<rparr>) = activeCountdowns w"
  "activeCountdowns (w\<lparr> triggered := i \<rparr>) = activeCountdowns w"
  by (simp_all add: activeCountdowns_def)

lemma activeCountdowns_setTimeout [simp]:
  "activeCountdowns (snd (setTimeout cb d w)) =
     activeCountdowns w @ (case cb of CountdownExpiry m \<Rightarrow> [nextHandle w] | _ \<Rightarrow> [])"
  by (simp add: activeCountdowns_def setTimeout_def isCountdown_def split: callback.splits)

lemma activeCountdowns_setInterval [simp]:
  "activeCountdowns (snd (setInterval cb d w)) =
     activeCountdowns w @ (case cb of CountdownExpiry m \<Rightarrow> [nextHandle w] | _ \<Rightarrow> [])"
  by (simp add: activeCountdowns_def setInterval_def isCountdown_def split: callback.splits)

lemma activeCountdowns_clearTimeout:
  "set (activeCountdowns (clearTimeout h w)) \<subseteq> set (activeCountdowns w)"
  by (auto simp: activeCountdowns_def clearTimeout_def)

lemma activeCountdowns_cancelCountdown:
  "set (activeCountdowns (cancelCountdown w)) \<subseteq> set (activeCountdowns w)"
  using activeCountdowns_clearTimeout by (auto simp: cancelCountdown_def split: option.splits)

lemma activeCountdowns_resetInactivityTimer:
  "set (activeCountdowns (resetInactivityTimer w)) \<subseteq> set (activeCountdowns w)"
  using activeCountdowns_clearTimeout
  by (auto simp: resetInactivityTimer_def Let_def split_beta split: option.splits)

lemma activeCountdowns_start [simp]:
  "activeCountdowns (start b w) = activeCountdowns w"
  by (simp add: start_def Let_def split_beta)

lemma activeCountdowns_activateVelocityTracker:
  "set (activeCountdowns (activateVelocityTracker w)) \<subseteq> set (activeCountdowns w)"
proof (cases "isTrackerActiveRef w")
  case True
  then show ?thesis
    using activeCountdowns_resetInactivityTimer[of w] by (simp add: activateVelocityTracker_def)
next
  case False
  let ?v = "(snd (setInterval VelocityPoll 500 (start False (w\<lparr> isTrackerActiveRef := True \<rparr>))))
      \<lparr> velocityPollTimerRef := Some (nextHandle (start False (w\<lparr> isTrackerActiveRef := True \<rparr>))) \<rparr>"
  have "activateVelocityTracker w = resetInactivityTimer ?v"
    using False by (simp add: activateVelocityTracker_def Let_def split_beta)
  moreover have "activeCountdowns ?v = activeCountdowns w" by simp
  ultimately show ?thesis using activeCountdowns_resetInactivityTimer[of ?v] by simp
qed

lemma activeCountdowns_handleAssess:
  "set (activeCountdowns (handleAssess t w)) \<subseteq> set (activeCountdowns w)"
  using activeCountdowns_activateVelocityTracker[of w]
  by (auto simp: handleAssess_def Let_def)

lemma activeCountdowns_executeAssessment:
  "set (activeCountdowns (executeAssessment t w)) \<subseteq> set (activeCountdowns w)"
proof -
  let ?w1 = "w\<lparr> tracker := (tracker w)\<lparr> lastAssessedText := t, lastAssessmentTime := now w \<rparr> \<rparr>"
  let ?w2 = "?w1\<lparr> triggered := triggered ?w1 @ [(now ?w1, t)] \<rparr>"
  have "executeAssessment t w = (if triggerCallback (tracker w) then handleAssess (Some t) ?w2 else ?w1)"
    by (simp add: executeAssessment_def Let_def)
  moreover have "activeCountdowns ?w2 = activeCountdowns w" "activeCountdowns ?w1 = activeCountdowns w"
    by simp_all
  ultimately show ?thesis using activeCountdowns_handleAssess[of "Some t" ?w2] by simp
qed

lemma forceTrigger_arms_no_countdown:
  "set (activeCountdowns (forceTrigger w)) \<subseteq> set (activeCountdowns w)"
  using activeCountdowns_executeAssessment[of "promptTextRef w" "cancelCountdown w"]
    activeCountdowns_cancelCountdown[of w]
  by (simp add: forceTrigger_def Let_def) blast


lemma forceTrigger_triggered:
  "triggered (forceTrigger w) =
     (if getCurrentText (tracker w) \<and> triggerCallback (tracker w) \<and> 10 \<le> length (promptTextRef w)
      then triggered w @ [(now w, promptTextRef w)] else triggered w)"
  by (simp add: forceTrigger_def Let_def)

lemma forceTrigger_flags:
  "getCurrentText (tracker w) \<Longrightarrow> getCurrentText (tracker (forceTrigger w))"
  "triggerCallback (tracker w) \<Longrightarrow> triggerCallback (tracker (forceTrigger w))"
  by (simp_all add: forceTrigger_def executeAssessment_def handleAssess_def Let_def)

lemma denylisted_rejected:
  "trim (lc text) \<in> set THROWAWAY_PHRASES \<Longrightarrow> \<not> passesPreFilters lc w text"
  by (simp add: passesPreFilters_def preFilterFailure_def Let_def)

text \<open>
  Claim C10. The manual path has no denylist check: once the tracker is started, for every
  text of length at least 10 \<open>forceTrigger\<close> forwards that text at once, also when its
  lower-cased, trimmed form is a denylisted phrase, which the automatic gate rejects.
\<close>

theorem forceTrigger_has_no_denylist:
  assumes "getCurrentText (tracker w)" "triggerCallback (tracker w)"
    "10 \<le> length (promptTextRef w)"
  shows "triggered (forceTrigger w) = triggered w @ [(now w, promptTextRef w)] \<and>
         (trim (lc (promptTextRef w)) \<in> set THROWAWAY_PHRASES \<longrightarrow>
            \<not> passesPreFilters lc w (promptTextRef w) \<and>
            triggered (countdownExpired lc w) = triggered w)"
  using assms by (simp add: forceTrigger_triggered denylisted_rejected countdownExpired_triggered)

lemma holding_facts:
  "getCurrentText (tracker (holding padded10))"
  "triggerCallback (tracker (holding padded10))"
  "promptTextRef (holding padded10) = padded10"
  "length padded10 = 10"
  "trim (toLowerLatin padded10) \<in> set THROWAWAY_PHRASES"
  "triggered (holding padded10) = []"
  "now (holding padded10) = 1000000"
  "preFilterFailure toLowerLatin (holding padded10) padded10 = Some TooShort"
  "length padded15 = 15"
  "preFilterFailure toLowerLatin (holding padded15) padded15 = Some ThrowawayPhrase"
  by code_simp+

text \<open>
  The theorem at the state where the started tracker sees \<open>testing\<close> followed by three
  spaces: the manual path forwards it, the automatic gate does not.
\<close>

theorem forceTrigger_has_no_denylist_witness:
  "getCurrentText (tracker (holding padded10)) \<and> triggerCallback (tracker (holding padded10)) \<and>
   10 \<le> length (promptTextRef (holding padded10)) \<and>
   trim (toLowerLatin (promptTextRef (holding padded10))) \<in> set THROWAWAY_PHRASES \<and>
   triggered (forceTrigger (holding padded10)) = [(1000000, padded10)] \<and>
   \<not> passesPreFilters toLowerLatin (holding padded10) padded10 \<and>
   triggered (countdownExpired toLowerLatin (holding padded10)) = []"
  using forceTrigger_has_no_denylist[of "holding padded10" toLowerLatin] holding_facts
  by simp

lemma runCallback_triggered:
  "triggered (runCallback lc cb w) \<noteq> triggered w \<Longrightarrow>
   (\<exists>m. cb = CountdownExpiry m) \<and> currentState (tracker w) = STOPPED \<and>
   passesPreFilters lc w (promptTextRef w) \<and>
   triggered (runCallback lc cb w) = triggered w @ [(now w, promptTextRef w)]"
  by (cases cb) (auto simp: countdownExpired_triggered split: if_splits)

lemma fire_triggered:
  "triggered (fire lc h w) \<noteq> triggered w \<Longrightarrow>
   currentState (tracker w) = STOPPED \<and> passesPreFilters lc w (promptTextRef w) \<and>
   triggered (fire lc h w) = triggered w @ [(now w, promptTextRef w)]"
  using runCallback_triggered[of lc _ w]
  by (auto simp: fire_def pendingTimer_def Let_def split: option.splits if_splits)

lemma cooldown_respected:
  assumes "reachable lc w" "passesPreFilters lc w text"
  shows "\<forall>e \<in> set (triggered w). 30000 \<le> now w - fst e"
proof -
  have c: "config (tracker w) = DEFAULT_CONFIG" using assms(1) by (rule reachable_config)
  have "\<not> now w - lastAssessmentTime (tracker w) < 30000"
    using assms(2) c
    by (auto simp: passesPreFilters_def preFilterFailure_def Let_def DEFAULT_CONFIG_def
        split: if_splits)
  moreover have "\<forall>e \<in> set (triggered w). fst e \<le> lastAssessmentTime (tracker w)"
    using reachable_times_ok[OF assms(1)] by (simp add: times_ok_def)
  ultimately show ?thesis by fastforce
qed

text \<open>
  Claim C6. Once the tracker is started \<open>forceTrigger\<close> forwards the text at once whenever its
  length is at least 10, whatever the time and the text of the last assessment, and does
  nothing when the text is shorter; it arms no countdown; two manual triggers any \<open>d\<close> ms
  apart, also fewer than 30000, both fire. A trigger fired by a timer comes at least 30000 ms after every earlier
  trigger, so two automatic triggers within 30000 ms never both fire.
\<close>

theorem manual_path_bypasses_cooldown_automatic_does_not:
  assumes "reachable lc w"
  shows "(getCurrentText (tracker w) \<and> triggerCallback (tracker w) \<longrightarrow>
            (10 \<le> length (promptTextRef w) \<longrightarrow>
               triggered (forceTrigger w) = triggered w @ [(now w, promptTextRef w)] \<and>
               triggered (forceTrigger (step lc (Elapse (int d)) (forceTrigger w))) =
                 triggered w @ [(now w, promptTextRef w), (now w + int d, promptTextRef w)]) \<and>
            (length (promptTextRef w) < 10 \<longrightarrow> forceTrigger w = w)) \<and>
         set (activeCountdowns (forceTrigger w)) \<subseteq> set (activeCountdowns w) \<and>
         (triggered (fire lc h w) \<noteq> triggered w \<longrightarrow>
            triggered (fire lc h w) = triggered w @ [(now w, promptTextRef w)] \<and>
            (\<forall>e \<in> set (triggered w). 30000 \<le> now w - fst e))"
proof -
  have manual: "triggered (forceTrigger w) = triggered w @ [(now w, promptTextRef w)] \<and>
      triggered (forceTrigger (step lc (Elapse (int d)) (forceTrigger w))) =
        triggered w @ [(now w, promptTextRef w), (now w + int d, promptTextRef w)]"
    if "getCurrentText (tracker w)" "triggerCallback (tracker w)" "10 \<le> length (promptTextRef w)"
  proof -
    let ?w1 = "step lc (Elapse (int d)) (forceTrigger w)"
    have "getCurrentText (tracker ?w1)" "triggerCallback (tracker ?w1)"
      "promptTextRef ?w1 = promptTextRef w" "now ?w1 = now w + int d"
      using that forceTrigger_flags[of w] by simp_all
    then show ?thesis using that by (simp add: forceTrigger_triggered)
  qed
  have short: "forceTrigger w = w" if "length (promptTextRef w) < 10"
    using that by (simp add: forceTrigger_def Let_def)
  have auto: "triggered (fire lc h w) = triggered w @ [(now w, promptTextRef w)] \<and>
      (\<forall>e \<in> set (triggered w). 30000 \<le> now w - fst e)"
    if "triggered (fire lc h w) \<noteq> triggered w"
    using fire_triggered[OF that] cooldown_respected[OF assms] by blast
  show ?thesis using manual short auto forceTrigger_arms_no_countdown[of w] by blast
qed

lemma holding_draft_facts:
  "getCurrentText (tracker (holding draft))"
  "triggerCallback (tracker (holding draft))"
  "promptTextRef (holding draft) = draft"
  "length draft = 19"
  "triggered (holding draft) = []"
  "now (holding draft) = 1000000"
  "length (promptTextRef (holding (ascii ''short''))) < 10"
  by code_simp+

lemma countdown_due_facts:
  "triggered countdown_due = [(1000000, brief)]"
  "now countdown_due = 1038500"
  "promptTextRef countdown_due = revised"
  "triggered (fire toLowerLatin 8 countdown_due) = [(1000000, brief), (1038500, revised)]"
  by code_simp+

lemma reachable_holding: "reachable toLowerLatin (holding text)"
  unfolding holding_def by (rule reachable_exec) (simp add: reachable_init)

lemma reachable_countdown_due: "reachable toLowerLatin countdown_due"
  unfolding countdown_due_def by (rule reachable_exec) (simp add: reachable_init)

text \<open>
  The theorem at three reachable states. With the started tracker holding the draft, two
  manual triggers 5000 ms apart both fire. Holding a text of five characters, the manual
  trigger does nothing. In the state \<open>countdown_due\<close> the countdown timer fires and forwards
  the revised text 38500 ms after the manual trigger.
\<close>

theorem manual_path_bypasses_cooldown_automatic_does_not_witness:
  "reachable toLowerLatin (holding draft) \<and>
   getCurrentText (tracker (holding draft)) \<and> triggerCallback (tracker (holding draft)) \<and>
   10 \<le> length (promptTextRef (holding draft)) \<and>
   triggered (forceTrigger (step toLowerLatin (Elapse 5000) (forceTrigger (holding draft)))) =
     [(1000000, draft), (1005000, draft)] \<and>
   reachable toLowerLatin (holding (ascii ''short'')) \<and>
   length (promptTextRef (holding (ascii ''short''))) < 10 \<and>
   forceTrigger (holding (ascii ''short'')) = holding (ascii ''short'') \<and>
   reachable toLowerLatin countdown_due \<and>
   triggered (fire toLowerLatin 8 countdown_due) \<noteq> triggered countdown_due \<and>
   triggered (fire toLowerLatin 8 countdown_due) = [(1000000, brief), (1038500, revised)] \<and>
   triggered countdown_due = [(1000000, brief)] \<and>
   30000 \<le> now countdown_due - 1000000"
proof -
  note a = manual_path_bypasses_cooldown_automatic_does_not[OF reachable_holding,
      of draft 5000 0]
  note b = manual_path_bypasses_cooldown_automatic_does_not[OF reachable_holding,
      of "ascii ''short''" 0 0]
  note c = manual_path_bypasses_cooldown_automatic_does_not[OF reachable_countdown_due,
      of 0 8]
  have grew: "triggered (fire toLowerLatin 8 countdown_due) \<noteq> triggered countdown_due"
    by (simp add: countdown_due_facts)
  have two: "triggered (forceTrigger (step toLowerLatin (Elapse 5000) (forceTrigger (holding draft)))) =
     [(1000000, draft), (1005000, draft)]"
    using a holding_draft_facts by simp
  have short: "forceTrigger (holding (ascii ''short'')) = holding (ascii ''short'')"
    using b holding_draft_facts(7) by (simp add: forceTrigger_def Let_def)
  have cool: "\<forall>e \<in> set (triggered countdown_due). 30000 \<le> now countdown_due - fst e"
    using c grew by blast
  have gap: "30000 \<le> now countdown_due - 1000000"
    using cool by (simp add: countdown_due_facts(1))
  show ?thesis
    using two short gap grew reachable_holding reachable_countdown_due holding_draft_facts
      countdown_due_facts(1,4)
    by simp
qed

section \<open>Rejected triggers and the last-sent pair\<close>













section \<open>Recent-History Buffer\<close>

lemma trackKeystroke_buffer:
  "charTimestamps (tracker (trackKeystroke c w)) =
     (if isComposing (tracker w) then charTimestamps (tracker w)
      else if length (charTimestamps (tracker w)) + 1 > charBufferSize (config (tracker w))
           then tl (charTimestamps (tracker w) @ [\<lparr> char = c, timestamp = now w \<rparr>])
           else charTimestamps (tracker w) @ [\<lparr> char = c, timestamp = now w \<rparr>])"
  by (simp add: trackKeystroke_def Let_def)

lemma trackKeystroke_bounded:
  "length (charTimestamps (tracker w)) \<le> charBufferSize (config (tracker w)) \<Longrightarrow>
   length (charTimestamps (tracker (trackKeystroke c w))) \<le> charBufferSize (config (tracker w))"
  by (simp add: trackKeystroke_buffer)

lemma fold_trackKeystroke_bounded:
  "length (charTimestamps (tracker w)) \<le> charBufferSize (config (tracker w)) \<Longrightarrow>
   length (charTimestamps (tracker (fold trackKeystroke cs w)))
     \<le> charBufferSize (config (tracker w))"
proof (induction cs arbitrary: w)
  case Nil
  then show ?case by simp
next
  case (Cons c cs)
  show ?case using Cons.IH[of "trackKeystroke c w"] trackKeystroke_bounded[OF Cons.prems, of c]
    by simp
qed

lemma step_bounded:
  assumes "length (charTimestamps (tracker w)) \<le> charBufferSize (config (tracker w))"
  shows "length (charTimestamps (tracker (step lc e w))) \<le> charBufferSize (config (tracker w))"
proof (cases e)
  case (TextChanged t)
  show ?thesis
    using TextChanged assms fold_trackKeystroke_bounded[of "w\<lparr> promptTextRef := t \<rparr>"]
    by (simp add: observeText_def Let_def)
qed (use assms in \<open>simp_all add: setComposing_def handleKeyboardShortcut_def\<close>)

lemma reachable_bounded:
  "reachable lc w \<Longrightarrow> length (charTimestamps (tracker w)) \<le> charBufferSize (config (tracker w))"
proof (induction rule: reachable.induct)
  case (reachable_init t0)
  then show ?case by (simp add: init_def newTracker_def)
next
  case (reachable_step w e)
  then show ?case using step_bounded[of w lc e] by simp
qed

text \<open>
  Claim C8, as stated: the buffer is pruned on each classifier sample, so that right after a
  sampling tick it holds only entries newer than one second. In the state \<open>before_tick\<close>
  timer 1 is the sampling timer and is due; after it has run, the state is STOPPED and the
  buffer still holds the five entries of clock 1000000, which are 1000 ms old.
\<close>

theorem buffer_pruned_on_sample_counterexample:
  "pendingTimer 1 before_tick =
     Some \<lparr> handle = 1, due = 1001000, action = SampleTick, period = Some 500 \<rparr> \<and>
   now before_tick = 1001000 \<and>
   now (fire toLowerLatin 1 before_tick) = 1001000 \<and>
   currentState (tracker (fire toLowerLatin 1 before_tick)) = STOPPED \<and>
   map timestamp (charTimestamps (tracker (fire toLowerLatin 1 before_tick))) =
     [1000000, 1000000, 1000000, 1000000, 1000000] \<and>
   getCurrentVelocity (fire toLowerLatin 1 before_tick) = 0"
  by code_simp

lemma half_le_of_nat: "(1 / 2 \<le> (of_nat n :: rat)) \<longleftrightarrow> 1 \<le> n"
proof (cases n)
  case 0
  then show ?thesis by simp
next
  case (Suc m)
  have "(1 / 2 :: rat) \<le> 1 + of_nat m" by (simp add: add_increasing2)
  then show ?thesis using Suc by (simp add: add.commute)
qed

lemma two_le_of_nat: "(2 \<le> (of_nat n :: rat)) \<longleftrightarrow> 2 \<le> n"
  using of_nat_le_iff[of 2 n, where ?'a = rat] by simp

text \<open>
  With the default thresholds a sample classifies by the number of buffer entries newer than
  one second: two or more is FLOW, one is EDITING, none is STOPPED.
\<close>

lemma sampleVelocity_classifies:
  assumes "config (tracker w) = DEFAULT_CONFIG"
  shows "currentState (tracker (sampleVelocity w)) =
     (if 2 \<le> length (filter (\<lambda>t. now w - timestamp t < 1000) (charTimestamps (tracker w)))
      then FLOW
      else if 1 \<le> length (filter (\<lambda>t. now w - timestamp t < 1000) (charTimestamps (tracker w)))
      then EDITING else STOPPED)"
proof -
  let ?n = "length (filter (\<lambda>t. now w - timestamp t < 1000) (charTimestamps (tracker w)))"
  have le: "(1 / 2 \<le> (of_nat ?n :: rat)) \<longleftrightarrow> 1 \<le> ?n" by (rule half_le_of_nat)
  have le2: "(2 \<le> (of_nat ?n :: rat)) \<longleftrightarrow> 2 \<le> ?n" by (rule two_le_of_nat)
  show ?thesis
    unfolding sampleVelocity_def Let_def
    using assms le le2 by (auto simp: DEFAULT_CONFIG_def)
qed

text \<open>
  Claim C8, amended. The buffer never holds more than 10 entries: a keystroke accepted when
  it holds 10 removes the oldest entry and appends the new one. No sampling tick and no other
  timer callback changes the buffer: a classifier sample counts the entries newer than one
  second, sets the state from that count alone (two or more FLOW, one EDITING, none STOPPED)
  and leaves the older entries in place.
\<close>

theorem buffer_capped_and_not_pruned:
  assumes "reachable lc w"
  shows "length (charTimestamps (tracker w)) \<le> 10 \<and>
         (\<not> isComposing (tracker w) \<and> length (charTimestamps (tracker w)) = 10 \<longrightarrow>
            charTimestamps (tracker (trackKeystroke c w)) =
              tl (charTimestamps (tracker w)) @ [\<lparr> char = c, timestamp = now w \<rparr>]) \<and>
         (\<not> isComposing (tracker w) \<and> length (charTimestamps (tracker w)) < 10 \<longrightarrow>
            charTimestamps (tracker (trackKeystroke c w)) =
              charTimestamps (tracker w) @ [\<lparr> char = c, timestamp = now w \<rparr>]) \<and>
         charTimestamps (tracker (sampleVelocity w)) = charTimestamps (tracker w) \<and>
         charTimestamps (tracker (fire lc h w)) = charTimestamps (tracker w) \<and>
         getCurrentVelocity w =
           length (filter (\<lambda>t. now w - timestamp t < 1000) (charTimestamps (tracker w))) \<and>
         currentState (tracker (sampleVelocity w)) =
           (if 2 \<le> length (filter (\<lambda>t. now w - timestamp t < 1000) (charTimestamps (tracker w)))
            then FLOW
            else if 1 \<le> length (filter (\<lambda>t. now w - timestamp t < 1000)
                               (charTimestamps (tracker w)))
            then EDITING else STOPPED)"
proof -
  have c: "config (tracker w) = DEFAULT_CONFIG" using assms by (rule reachable_config)
  have "length (charTimestamps (tracker w)) \<le> 10"
    using reachable_bounded[OF assms] c by (simp add: DEFAULT_CONFIG_def)
  moreover have "charTimestamps (tracker (trackKeystroke c w)) =
      tl (charTimestamps (tracker w)) @ [\<lparr> char = c, timestamp = now w \<rparr>]"
    if "\<not> isComposing (tracker w)" "length (charTimestamps (tracker w)) = 10"
  proof -
    have "charTimestamps (tracker w) \<noteq> []" using that(2) by auto
    then show ?thesis using that c by (simp add: trackKeystroke_buffer DEFAULT_CONFIG_def)
  qed
  moreover have "charTimestamps (tracker (trackKeystroke c w)) =
      charTimestamps (tracker w) @ [\<lparr> char = c, timestamp = now w \<rparr>]"
    if "\<not> isComposing (tracker w)" "length (charTimestamps (tracker w)) < 10"
    using that c by (simp add: trackKeystroke_buffer DEFAULT_CONFIG_def)
  ultimately show ?thesis
    using sampleVelocity_classifies[OF c] by (simp add: getCurrentVelocity_def)
qed

lemma buffer_examples:
  "length (charTimestamps (tracker buffer_full)) = 10"
  "\<not> isComposing (tracker buffer_full)"
  "now buffer_full = 1000007"
  "map timestamp (charTimestamps (tracker buffer_full)) =
     [1000000, 1000000, 1000000, 1000000, 1000000, 1000000, 1000000, 1000000, 1000000, 1000000]"
  "map char (charTimestamps (tracker buffer_full)) =
     [[0x30], [0x31], [0x32], [0x33], [0x34], [0x35], [0x36], [0x37], [0x38], [0x39]]"
  "length (charTimestamps (tracker before_tick)) = 5"
  "\<not> isComposing (tracker before_tick)"
  by code_simp+

lemma window_examples:
  "length (filter (\<lambda>t. now before_tick - timestamp t < 1000)
     (charTimestamps (tracker before_tick))) = 0"
  "length (filter (\<lambda>t. now buffer_full - timestamp t < 1000)
     (charTimestamps (tracker buffer_full))) = 10"
  "currentState (tracker before_tick) = FLOW"
  "currentState (tracker buffer_full) = STOPPED"
  by code_simp+

lemma reachable_buffer_full: "reachable toLowerLatin buffer_full"
  unfolding buffer_full_def by (rule reachable_exec) (simp add: reachable_init)

lemma reachable_before_tick: "reachable toLowerLatin before_tick"
  unfolding before_tick_def by (rule reachable_exec) (simp add: reachable_init)

text \<open>
  The theorem at two reachable states. In \<open>buffer_full\<close> the buffer holds ten entries that
  are 7 ms old: the next keystroke pushes out the oldest, and a sample counts ten and sets
  FLOW. In \<open>before_tick\<close> it holds five entries that are 1000 ms old: the next keystroke is
  appended, and a sample counts none of the five, sets STOPPED and leaves them in the buffer.
\<close>

theorem buffer_capped_and_not_pruned_witness:
  "reachable toLowerLatin buffer_full \<and>
   \<not> isComposing (tracker buffer_full) \<and> length (charTimestamps (tracker buffer_full)) = 10 \<and>
   map char (charTimestamps (tracker (trackKeystroke [0x21] buffer_full))) =
     [[0x31], [0x32], [0x33], [0x34], [0x35], [0x36], [0x37], [0x38], [0x39], [0x21]] \<and>
   getCurrentVelocity buffer_full = 10 \<and>
   currentState (tracker buffer_full) = STOPPED \<and>
   currentState (tracker (sampleVelocity buffer_full)) = FLOW \<and>
   reachable toLowerLatin before_tick \<and>
   \<not> isComposing (tracker before_tick) \<and> length (charTimestamps (tracker before_tick)) < 10 \<and>
   length (charTimestamps (tracker (trackKeystroke [0x21] before_tick))) = 6 \<and>
   charTimestamps (tracker (fire toLowerLatin 1 before_tick)) = charTimestamps (tracker before_tick) \<and>
   getCurrentVelocity before_tick = 0 \<and>
   currentState (tracker before_tick) = FLOW \<and>
   currentState (tracker (sampleVelocity before_tick)) = STOPPED \<and>
   length (charTimestamps (tracker (sampleVelocity before_tick))) = 5"
proof -
  note f = buffer_capped_and_not_pruned[OF reachable_buffer_full, of "[0x21]" 1]
  note p = buffer_capped_and_not_pruned[OF reachable_before_tick, of "[0x21]" 1]
  have 1: "map char (charTimestamps (tracker (trackKeystroke [0x21] buffer_full))) =
     [[0x31], [0x32], [0x33], [0x34], [0x35], [0x36], [0x37], [0x38], [0x39], [0x21]]"
    using f buffer_examples(1,2,5) by (simp add: map_tl)
  have 2: "length (charTimestamps (tracker (trackKeystroke [0x21] before_tick))) = 6"
    using p buffer_examples(6,7) by simp
  have 3: "getCurrentVelocity buffer_full = 10 \<and>
      currentState (tracker (sampleVelocity buffer_full)) = FLOW"
    using f window_examples(2) by simp
  have 4: "getCurrentVelocity before_tick = 0 \<and>
      currentState (tracker (sampleVelocity before_tick)) = STOPPED \<and>
      length (charTimestamps (tracker (sampleVelocity before_tick))) = 5"
    using p window_examples(1) buffer_examples(6) by simp
  show ?thesis
    using 1 2 3 4 p buffer_examples window_examples(3,4) reachable_buffer_full
      reachable_before_tick
    by simp
qed

section \<open>Timer handles: the countdown timer\<close>

lemma once_armed_state:
  "now once_armed = 1003000"
  "currentState (tracker once_armed) = STOPPED"
  "countdownTimer (tracker once_armed) = Some 9"
  "activeCountdowns once_armed = [9]"
  "pendingTimer 7 once_armed =
     Some \<lparr> handle = 7, due = 1004004, action = GraceCheck, period = None \<rparr>"
  "pendingTimer 9 once_armed =
     Some \<lparr> handle = 9, due = 1011000, action = CountdownExpiry 8, period = None \<rparr>"
  by code_simp+

lemma twice_armed_state:
  "now twice_armed = 1004004"
  "currentState (tracker twice_armed) = STOPPED"
  "countdownTimer (tracker twice_armed) = Some 11"
  "activeCountdowns twice_armed = [9, 11]"
  "pendingTimer 9 twice_armed =
     Some \<lparr> handle = 9, due = 1011000, action = CountdownExpiry 8, period = None \<rparr>"
  "pendingTimer 11 twice_armed =
     Some \<lparr> handle = 11, due = 1012004, action = CountdownExpiry 10, period = None \<rparr>"
  by code_simp+

lemma resumed_state:
  "now resumed = 1005004"
  "currentState (tracker resumed) = EDITING"
  "previousState (tracker resumed) = STOPPED"
  "countdownTimer (tracker resumed) = None"
  "activeCountdowns resumed = [9]"
  "pendingTimer 9 resumed =
     Some \<lparr> handle = 9, due = 1011000, action = CountdownExpiry 8, period = None \<rparr>"
  by code_simp+

lemma orphan_due_state:
  "now orphan_due = 1011000"
  "currentState (tracker orphan_due) = STOPPED"
  "triggered orphan_due = []"
  "promptTextRef orphan_due = draft @ ascii ''abc''"
  "activeCountdowns orphan_due = [9, 15]"
  "triggered (fire toLowerLatin 9 orphan_due) = [(1011000, draft @ ascii ''abc'')]"
  by code_simp+

lemma startCountdown_nextHandle:
  "nextHandle (startCountdown w) = (if getCurrentText (tracker w) then nextHandle w + 2 else nextHandle w)"
  by (simp add: startCountdown_def Let_def split_beta setTimeout_def)

lemma onStateChange_countdownTimer:
  "countdownTimer (tracker (onStateChange s w)) =
     (if s \<noteq> STOPPED \<and> truthy (countdownTimer (tracker w)) then None
      else countdownTimer (tracker w))"
  by (simp add: onStateChange_def Let_def)

lemma sampleVelocity_countdownTimer:
  "countdownTimer (tracker (sampleVelocity w)) = None \<or>
   countdownTimer (tracker (sampleVelocity w)) = countdownTimer (tracker w)"
  by (simp add: sampleVelocity_def Let_def onStateChange_countdownTimer)

lemma countdownExpired_countdownTimer:
  "countdownTimer (tracker (countdownExpired lc w)) = countdownTimer (tracker w)"
  by (simp add: countdownExpired_def Let_def)

lemma inactivityExpired_countdownTimer:
  "countdownTimer (tracker (inactivityExpired w)) = None \<or>
   countdownTimer (tracker (inactivityExpired w)) = countdownTimer (tracker w)"
  by (simp add: inactivityExpired_def Let_def split: option.splits)

lemma forceTrigger_countdownTimer:
  "countdownTimer (tracker (forceTrigger w)) = None \<or>
   countdownTimer (tracker (forceTrigger w)) = countdownTimer (tracker w)"
  by (simp add: forceTrigger_def Let_def)

lemma observeText_countdownTimer:
  "countdownTimer (tracker (observeText t w)) = countdownTimer (tracker w)"
  by (simp add: observeText_def Let_def)

lemma runCallback_countdown_handle: "countdown_handle_step w (runCallback lc cb w)"
proof (cases cb)
  case SampleTick
  then show ?thesis
    using sampleVelocity_countdownTimer[of w] by (auto simp: countdown_handle_step_def)
next
  case GraceCheck
  then show ?thesis
    by (simp add: countdown_handle_step_def startCountdown_nextHandle)
next
  case InactivityExpiry
  then show ?thesis
    using inactivityExpired_countdownTimer[of w] by (auto simp: countdown_handle_step_def)
qed (simp_all add: countdown_handle_step_def countdownExpired_countdownTimer)

lemma fire_countdown_handle: "countdown_handle_step w (fire lc h w)"
  using runCallback_countdown_handle[of w lc]
  by (auto simp: fire_def pendingTimer_def Let_def countdown_handle_step_def split: option.splits)

lemma step_countdown_handle: "countdown_handle_step w (step lc e w)"
proof (cases e)
  case (Fire h)
  then show ?thesis using fire_countdown_handle[of w lc h] by simp
next
  case Shortcut
  then show ?thesis
    using forceTrigger_countdownTimer[of w]
    by (auto simp: countdown_handle_step_def handleKeyboardShortcut_def)
qed (simp_all add: countdown_handle_step_def observeText_countdownTimer setComposing_def)

lemma countdown_handle_ok_step:
  assumes "countdown_handle_ok w"
  shows "countdown_handle_ok (step lc e w)"
proof -
  have "nextHandle w \<le> nextHandle (step lc e w)"
    using evolves_step[of w lc e] by (simp add: evolves_def)
  then show ?thesis
    using assms step_countdown_handle[of w lc e]
    by (auto simp: countdown_handle_ok_def countdown_handle_step_def split: option.splits)
qed

lemma reachable_countdown_handle_ok: "reachable lc w \<Longrightarrow> countdown_handle_ok w"
proof (induction rule: reachable.induct)
  case (reachable_init t0)
  then show ?case by (simp add: countdown_handle_ok_def init_def newTracker_def)
next
  case (reachable_step w e)
  then show ?case by (simp add: countdown_handle_ok_step)
qed

lemma reachable_once_armed: "reachable toLowerLatin once_armed"
  unfolding once_armed_def by (rule reachable_exec) (simp add: reachable_init)

lemma reachable_twice_armed: "reachable toLowerLatin twice_armed"
  unfolding twice_armed_def by (rule reachable_exec) (rule reachable_once_armed)

lemma reachable_resumed: "reachable toLowerLatin resumed"
  unfolding resumed_def by (rule reachable_exec) (rule reachable_twice_armed)

lemma reachable_orphan_due: "reachable toLowerLatin orphan_due"
  unfolding orphan_due_def by (rule reachable_exec) (rule reachable_resumed)

text \<open>
  Claim C7 on the code. In the run of \<open>once_armed\<close> and \<open>twice_armed\<close>, the grace check
  scheduled at 1001500 arms a countdown (timer 9) at 1003000, and the grace check scheduled at
  1002504 arms another (timer 11) at 1004004: \<open>startCountdown\<close> overwrites the handle it
  holds without clearing the timer, so two countdown timers are pending at once and the
  tracker holds only the handle of the second.
\<close>

theorem two_countdown_timers_pending:
  "reachable toLowerLatin twice_armed \<and>
   activeCountdowns once_armed = [9] \<and> countdownTimer (tracker once_armed) = Some 9 \<and>
   twice_armed = exec toLowerLatin (tick 4 @ tick 500 @ tick 500 @ [Fire 7]) once_armed \<and>
   activeCountdowns twice_armed = [9, 11] \<and> countdownTimer (tracker twice_armed) = Some 11 \<and>
   pendingTimer 9 twice_armed =
     Some \<lparr> handle = 9, due = 1011000, action = CountdownExpiry 8, period = None \<rparr> \<and>
   pendingTimer 11 twice_armed =
     Some \<lparr> handle = 11, due = 1012004, action = CountdownExpiry 10, period = None \<rparr>"
  using reachable_twice_armed once_armed_state twice_armed_state
  by (simp add: twice_armed_def)

section \<open>Countdown Scheduler: leaving STOPPED\<close>

text \<open>
  Had \<open>startCountdown\<close> cleared the handle it holds before arming, as
  \<open>resetInactivityTimer\<close> does, the second arming of the run above would leave one countdown
  timer pending instead of two.
\<close>

lemma clearing_before_arming_leaves_one:
  "activeCountdowns
     (startCountdown (exec toLowerLatin (tick 4 @ tick 500 @ tick 500) once_armed)) = [9, 11] \<and>
   activeCountdowns
     (startCountdown (cancelCountdown
        (exec toLowerLatin (tick 4 @ tick 500 @ tick 500) once_armed))) = [11]"
  by code_simp

text \<open>
  Claim C2 on the code. The claim: leaving STOPPED cancels any running countdown, so when a
  countdown is started and typing resumes before it expires, onTrigger is never called for
  that countdown. In the run above, countdown timer 9 is started at 1003000 and due at
  1011000. Typing resumes at 1005000 and the tracker leaves STOPPED at 1005004;
  \<open>cancelCountdown\<close> clears timer 11, the only handle the tracker holds, and timer 9 stays
  pending. The user stops again, the tracker is back in STOPPED, and at 1011000 timer 9 runs
  and calls onTrigger.
\<close>

theorem countdown_fires_after_typing_resumed:
  "reachable toLowerLatin orphan_due \<and>
   pendingTimer 9 twice_armed =
     Some \<lparr> handle = 9, due = 1011000, action = CountdownExpiry 8, period = None \<rparr> \<and>
   currentState (tracker twice_armed) = STOPPED \<and> now twice_armed = 1004004 \<and>
   currentState (tracker resumed) = EDITING \<and> previousState (tracker resumed) = STOPPED \<and>
   now resumed = 1005004 \<and>
   pendingTimer 9 resumed =
     Some \<lparr> handle = 9, due = 1011000, action = CountdownExpiry 8, period = None \<rparr> \<and>
   now orphan_due = 1011000 \<and> triggered orphan_due = [] \<and>
   triggered (fire toLowerLatin 9 orphan_due) = [(1011000, draft @ ascii ''abc'')]"
  using reachable_orphan_due twice_armed_state resumed_state orphan_due_state by simp

lemma pendingTimer_None: "pendingTimer h w = None \<longleftrightarrow> \<not> pending h w"
  by (auto simp: pendingTimer_def pending_def find_None_iff)

lemma fire_not_pending: "\<not> pending h w \<Longrightarrow> fire lc h w = w"
  by (simp add: fire_def pendingTimer_None[symmetric])

lemma pending_clearTimeout: "pending g (clearTimeout h w) \<longleftrightarrow> pending g w \<and> g \<noteq> h"
  by (auto simp: pending_def clearTimeout_def)

lemma find_filter_other:
  "g \<noteq> h \<Longrightarrow> find (\<lambda>t. handle t = g) (filter (\<lambda>t. handle t \<noteq> h) ts) = find (\<lambda>t. handle t = g) ts"
  by (induction ts) auto

lemma leaving_stopped_timers:
  assumes "s \<noteq> STOPPED" "countdownTimer (tracker w) = Some h" "0 < h"
  shows "timers (onStateChange s w) = filter (\<lambda>t. handle t \<noteq> h) (timers w)"
    and "nextHandle (onStateChange s w) = nextHandle w"
  using assms
  by (simp_all add: onStateChange_def Let_def cancelCountdown_def clearTimeout_def
      notifyStateChange_def)

lemma retired_forever:
  assumes "\<not> pending h w" "h < nextHandle w"
  shows "\<not> pending h (exec lc es w)"
  using evolves_exec[of w lc es] assms by (auto simp: evolves_def)

lemma fire_grace_check:
  assumes "pendingTimer g v = Some t" "action t = GraceCheck" "period t = None" "due t \<le> now v"
  shows "fire lc g v =
     clearTimeout g (if currentState (tracker v) = STOPPED then startCountdown v else v)"
  using assms by (simp add: fire_def)

text \<open>
  What leaving STOPPED does clear. A transition out of STOPPED clears the one countdown timer
  whose handle the tracker holds: the tracker holds no handle afterwards, that timer is never
  pending again in any continuation of the execution and its callback never runs. Every other
  pending timer stays pending, a countdown timer whose handle was overwritten included. A
  grace-period check, when it runs, arms a countdown if the state is STOPPED at that moment
  and does nothing otherwise.
\<close>

lemma leaving_stopped_clears_held_countdown:
  assumes "reachable lc w" "countdownTimer (tracker w) = Some h" "s \<noteq> STOPPED"
  shows "countdownTimer (tracker (onStateChange s w)) = None \<and>
         \<not> pending h (exec lc es (onStateChange s w)) \<and>
         fire lc h (exec lc es (onStateChange s w)) = exec lc es (onStateChange s w) \<and>
         (g \<noteq> h \<longrightarrow> pendingTimer g (onStateChange s w) = pendingTimer g w) \<and>
         (pendingTimer g v = Some t \<and> action t = GraceCheck \<and> period t = None \<and> due t \<le> now v
            \<longrightarrow> fire lc g v =
              clearTimeout g (if currentState (tracker v) = STOPPED then startCountdown v else v))"
proof -
  let ?w1 = "onStateChange s w"
  have h: "0 < h" "h < nextHandle w"
    using reachable_countdown_handle_ok[OF assms(1)] assms(2)
    by (simp_all add: countdown_handle_ok_def)
  have cleared: "countdownTimer (tracker ?w1) = None"
    using assms(2,3) h(1) by (simp add: onStateChange_countdownTimer truthy_def)
  have tm: "timers ?w1 = filter (\<lambda>t. handle t \<noteq> h) (timers w)"
    and nh: "nextHandle ?w1 = nextHandle w"
    using leaving_stopped_timers[OF assms(3,2) h(1)] by simp_all
  have gone: "\<not> pending h ?w1" by (auto simp: pending_def tm)
  have never: "\<not> pending h (exec lc es ?w1)"
    using retired_forever[OF gone] h(2) nh by simp
  have idle: "fire lc h (exec lc es ?w1) = exec lc es ?w1"
    using never by (rule fire_not_pending)
  have others: "g \<noteq> h \<longrightarrow> pendingTimer g ?w1 = pendingTimer g w"
    by (simp add: pendingTimer_def tm find_filter_other)
  show ?thesis
    using cleared never idle others fire_grace_check[of g v t lc] by blast
qed

lemma left_stopped_state:
  "pendingTimer 7 (exec toLowerLatin [Elapse 1004] (onStateChange EDITING once_armed)) =
     Some \<lparr> handle = 7, due = 1004004, action = GraceCheck, period = None \<rparr>"
  "now (exec toLowerLatin [Elapse 1004] (onStateChange EDITING once_armed)) = 1004004"
  "currentState (tracker (exec toLowerLatin [Elapse 1004] (onStateChange EDITING once_armed)))
     = EDITING"
  "pendingTimer 7 (exec toLowerLatin [Elapse 1004] once_armed) =
     Some \<lparr> handle = 7, due = 1004004, action = GraceCheck, period = None \<rparr>"
  "now (exec toLowerLatin [Elapse 1004] once_armed) = 1004004"
  "currentState (tracker (exec toLowerLatin [Elapse 1004] once_armed)) = STOPPED"
  by code_simp+

text \<open>
  The lemma at the reachable state \<open>once_armed\<close>, where the tracker holds countdown timer 9
  and grace check 7 is pending. Leaving STOPPED for EDITING clears timer 9, which then cannot
  run 8000 ms later; grace check 7 stays pending and, run at 1004004 in state EDITING, only
  removes itself. Run at 1004004 in state STOPPED instead, it arms a countdown.
\<close>

lemma leaving_stopped_clears_held_countdown_example:
  "reachable toLowerLatin once_armed \<and> countdownTimer (tracker once_armed) = Some 9 \<and>
   EDITING \<noteq> STOPPED \<and> (7::nat) \<noteq> 9 \<and>
   countdownTimer (tracker (onStateChange EDITING once_armed)) = None \<and>
   \<not> pending 9 (exec toLowerLatin [Elapse 8000] (onStateChange EDITING once_armed)) \<and>
   fire toLowerLatin 9 (exec toLowerLatin [Elapse 8000] (onStateChange EDITING once_armed)) =
     exec toLowerLatin [Elapse 8000] (onStateChange EDITING once_armed) \<and>
   pendingTimer 7 (onStateChange EDITING once_armed) =
     Some \<lparr> handle = 7, due = 1004004, action = GraceCheck, period = None \<rparr> \<and>
   pendingTimer 7 (exec toLowerLatin [Elapse 1004] (onStateChange EDITING once_armed)) =
     Some \<lparr> handle = 7, due = 1004004, action = GraceCheck, period = None \<rparr> \<and>
   fire toLowerLatin 7 (exec toLowerLatin [Elapse 1004] (onStateChange EDITING once_armed)) =
     clearTimeout 7 (exec toLowerLatin [Elapse 1004] (onStateChange EDITING once_armed)) \<and>
   fire toLowerLatin 7 (exec toLowerLatin [Elapse 1004] once_armed) =
     clearTimeout 7 (startCountdown (exec toLowerLatin [Elapse 1004] once_armed))"
proof -
  let ?t = "\<lparr> handle = 7, due = 1004004, action = GraceCheck, period = None \<rparr>"
  let ?v = "exec toLowerLatin [Elapse 1004] (onStateChange EDITING once_armed)"
  let ?u = "exec toLowerLatin [Elapse 1004] once_armed"
  have ne: "EDITING \<noteq> STOPPED" by simp
  note a = leaving_stopped_clears_held_countdown[OF reachable_once_armed once_armed_state(3) ne,
      of "[Elapse 8000]" 7 ?v ?t]
  note b = leaving_stopped_clears_held_countdown[OF reachable_once_armed once_armed_state(3) ne,
      of "[Elapse 8000]" 7 ?u ?t]
  have 1: "fire toLowerLatin 7 ?v = clearTimeout 7 ?v"
    using a left_stopped_state(1,2,3) by simp
  have 2: "fire toLowerLatin 7 ?u = clearTimeout 7 (startCountdown ?u)"
    using b left_stopped_state(4,5,6) by simp
  have 3: "pendingTimer 7 (onStateChange EDITING once_armed) = Some ?t"
    using a once_armed_state(5) by simp
  show ?thesis
    using a 1 2 3 reachable_once_armed once_armed_state(3) left_stopped_state(1) by simp
qed

section \<open>Timer handles: the inactivity timer\<close>

named_theorems timers_ok_intros

lemma timers_ok_fields [simp]:
  "timers_ok (w\<lparr> now := a \<rparr>) = timers_ok w"
  "timers_ok (w\<lparr> tracker := b \<rparr>) = timers_ok w"
  "timers_ok (w\<lparr> promptTextRef := c \<rparr>) = timers_ok w"
  "timers_ok (w\<lparr> previousTextForTracking := d \<rparr>) = timers_ok w"
  "timers_ok (w\<lparr> isTrackerActiveRef := e \<rparr>) = timers_ok w"
  "timers_ok (w\<lparr> velocityPollTimerRef := g \<rparr>) = timers_ok w"
  "timers_ok (w\<lparr> triggered := i \<rparr>) = timers_ok w"
  "timers_ok (w\<lparr> feedback := j \<rparr>) = timers_ok w"
  by (simp_all add: timers_ok_def)

lemma timers_ok_setTimeout [timers_ok_intros]:
  "cb \<noteq> InactivityExpiry \<Longrightarrow> timers_ok w \<Longrightarrow> timers_ok (snd (setTimeout cb d w))"
  unfolding timers_ok_def setTimeout_def by (auto simp: less_Suc_eq)

lemma timers_ok_setInterval [timers_ok_intros]:
  "cb \<noteq> InactivityExpiry \<Longrightarrow> timers_ok w \<Longrightarrow> timers_ok (snd (setInterval cb d w))"
  unfolding timers_ok_def setInterval_def by (auto simp: less_Suc_eq)

lemma timers_ok_clearTimeout [timers_ok_intros]:
  "timers_ok w \<Longrightarrow> timers_ok (clearTimeout h w)"
  unfolding timers_ok_def clearTimeout_def by (auto simp: distinct_map_filter)

lemma timers_ok_resetInactivityTimer [timers_ok_intros]:
  assumes "timers_ok w"
  shows "timers_ok (resetInactivityTimer w)"
proof (cases "inactivityTimerRef w")
  case None
  then have "\<forall>t \<in> set (timers w). action t \<noteq> InactivityExpiry"
    using assms by (auto simp: timers_ok_def)
  then show ?thesis
    using assms None
    by (auto simp: resetInactivityTimer_def Let_def setTimeout_def timers_ok_def less_Suc_eq)
next
  case (Some h)
  have pos: "h \<noteq> 0" if "t \<in> set (timers w)" "action t = InactivityExpiry" for t
    using assms Some that by (auto simp: timers_ok_def)
  show ?thesis
  proof (cases "h = 0")
    case True
    then have "\<forall>t \<in> set (timers w). action t \<noteq> InactivityExpiry"
      using pos by blast
    then show ?thesis
      using assms Some True
      by (auto simp: resetInactivityTimer_def Let_def setTimeout_def timers_ok_def less_Suc_eq)
  next
    case False
    have "\<forall>t \<in> set (filter (\<lambda>t. handle t \<noteq> h) (timers w)). action t \<noteq> InactivityExpiry"
      using assms Some by (auto simp: timers_ok_def)
    then show ?thesis
      using assms Some False
      by (auto simp: resetInactivityTimer_def Let_def setTimeout_def clearTimeout_def
          timers_ok_def less_Suc_eq distinct_map_filter)
  qed
qed

lemma timers_ok_cancelCountdown [timers_ok_intros]:
  "timers_ok w \<Longrightarrow> timers_ok (cancelCountdown w)"
  by (auto simp: cancelCountdown_def split: option.splits intro: timers_ok_intros)

lemma timers_ok_start [timers_ok_intros]:
  "timers_ok w \<Longrightarrow> timers_ok (start b w)"
  by (auto simp: start_def Let_def split_beta intro: timers_ok_intros)

lemma timers_ok_stop [timers_ok_intros]:
  "timers_ok w \<Longrightarrow> timers_ok (stop w)"
  by (auto simp: stop_def Let_def split: option.splits intro!: timers_ok_intros)

lemma timers_ok_fold_trackKeystroke [timers_ok_intros]:
  "timers_ok w \<Longrightarrow> timers_ok (fold trackKeystroke cs w)"
  by (simp add: timers_ok_def)

lemma timers_ok_notifyStateChange [timers_ok_intros]:
  "timers_ok w \<Longrightarrow> timers_ok (notifyStateChange s x w)"
  by (simp add: timers_ok_def)

lemma timers_ok_activateVelocityTracker [timers_ok_intros]:
  "timers_ok w \<Longrightarrow> timers_ok (activateVelocityTracker w)"
  by (auto simp: activateVelocityTracker_def Let_def split_beta intro!: timers_ok_intros)

lemma timers_ok_handleAssess [timers_ok_intros]:
  "timers_ok w \<Longrightarrow> timers_ok (handleAssess t w)"
  by (auto simp: handleAssess_def Let_def intro!: timers_ok_intros)

lemma timers_ok_executeAssessment [timers_ok_intros]:
  "timers_ok w \<Longrightarrow> timers_ok (executeAssessment t w)"
  by (auto simp: executeAssessment_def Let_def intro!: timers_ok_intros)

lemma timers_ok_forceTrigger [timers_ok_intros]:
  "timers_ok w \<Longrightarrow> timers_ok (forceTrigger w)"
  by (auto simp: forceTrigger_def Let_def intro!: timers_ok_intros)

lemma timers_ok_startCountdown [timers_ok_intros]:
  "timers_ok w \<Longrightarrow> timers_ok (startCountdown w)"
  by (auto simp: startCountdown_def Let_def split_beta intro!: timers_ok_intros)

lemma timers_ok_onStateChange [timers_ok_intros]:
  "timers_ok w \<Longrightarrow> timers_ok (onStateChange s w)"
  by (auto simp: onStateChange_def Let_def intro!: timers_ok_intros)

lemma timers_ok_sampleVelocity [timers_ok_intros]:
  "timers_ok w \<Longrightarrow> timers_ok (sampleVelocity w)"
  by (auto simp: sampleVelocity_def Let_def intro!: timers_ok_intros)

lemma timers_ok_countdownExpired [timers_ok_intros]:
  "timers_ok w \<Longrightarrow> timers_ok (countdownExpired lc w)"
  by (auto simp: countdownExpired_def Let_def intro!: timers_ok_intros)

lemma timers_ok_inactivityExpired [timers_ok_intros]:
  "timers_ok w \<Longrightarrow> timers_ok (inactivityExpired w)"
  by (auto simp: inactivityExpired_def Let_def split: option.splits intro!: timers_ok_intros)

lemma timers_ok_runCallback [timers_ok_intros]:
  "timers_ok w \<Longrightarrow> timers_ok (runCallback lc cb w)"
  by (cases cb) (auto intro!: timers_ok_intros)

lemma timers_ok_reschedule:
  assumes "timers_ok w"
  shows "timers_ok (w\<lparr> timers := map (\<lambda>u. if handle u = h then u\<lparr> due := x \<rparr> else u) (timers w) \<rparr>)"
proof -
  have m: "map (handle \<circ> (\<lambda>u. if handle u = h then u\<lparr> due := x \<rparr> else u)) ts = map handle ts" for ts
    by (induction ts) auto
  show ?thesis using assms by (auto simp: timers_ok_def m)
qed

lemma timers_ok_fire [timers_ok_intros]:
  "timers_ok w \<Longrightarrow> timers_ok (fire lc h w)"
  by (auto simp: fire_def pendingTimer_def Let_def split: option.splits
      intro!: timers_ok_reschedule timers_ok_intros)

lemma timers_ok_observeText [timers_ok_intros]:
  "timers_ok w \<Longrightarrow> timers_ok (observeText t w)"
  by (auto simp: observeText_def Let_def intro!: timers_ok_intros)

lemma timers_ok_step: "timers_ok w \<Longrightarrow> timers_ok (step lc e w)"
  by (cases e) (auto simp: setComposing_def handleKeyboardShortcut_def intro!: timers_ok_intros)

lemma reachable_timers_ok: "reachable lc w \<Longrightarrow> timers_ok w"
proof (induction rule: reachable.induct)
  case (reachable_init t0)
  then show ?case by (simp add: timers_ok_def init_def)
next
  case (reachable_step w e)
  then show ?case by (simp add: timers_ok_step)
qed

lemma distinct_constant_short:
  "distinct xs \<Longrightarrow> \<forall>x \<in> set xs. x = a \<Longrightarrow> length xs \<le> 1"
  by (cases xs; cases "tl xs") auto

text \<open>
  The inactivity timer: in every reachable state at most one is pending, and setting a new one
  clears the one held before.
\<close>

lemma at_most_one_inactivity_timer:
  assumes "reachable lc w"
  shows "length (activeInactivityTimers w) \<le> 1"
proof -
  have ok: "timers_ok w" using assms by (rule reachable_timers_ok)
  have d: "distinct (activeInactivityTimers w)"
    using ok by (simp add: activeInactivityTimers_def timers_ok_def distinct_map_filter)
  show ?thesis
  proof (cases "inactivityTimerRef w")
    case None
    then have "activeInactivityTimers w = []"
      using ok by (auto simp: activeInactivityTimers_def timers_ok_def filter_empty_conv)
    then show ?thesis by simp
  next
    case (Some h)
    then have "\<forall>x \<in> set (activeInactivityTimers w). x = h"
      using ok by (auto simp: activeInactivityTimers_def timers_ok_def)
    then show ?thesis using distinct_constant_short[OF d] by blast
  qed
qed

end
